theory Spec2Isabelle
  imports Complex_Main "HOL-Library.Log_Nat"
begin

section \<open>Conventions of the embedding\<close>

text \<open>
  The repository is a tabular actor-critic learner in Python: the class \<open>Actor\<close>
  (actor.py) and two simulated worlds, \<open>Gambler\<close> (gambler.py) and
  \<open>PoleBalancing\<close> (pole_balancing.py).

  \<^item> An object is a record of its attributes; a method takes the record and returns
    the record after the call next to its result.
  \<^item> Python numbers that hold learning rates, table values, probabilities and physical
    quantities are \<open>real\<close>. The rounding of IEEE doubles is modelled where a value is
    multiplied into itself call after call, in the decay of an eligibility; elsewhere the
    arithmetic is exact. Counters and coin counts are \<open>int\<close>.
  \<^item> A raised exception is the \<open>Inl\<close> branch of a sum; the object after the raise
    is still returned, since attributes assigned before the raise stay assigned.
  \<^item> A call of the random module takes the drawn number as an explicit argument.
\<close>

datatype error = IndexError | ValueError | IllegalAction

section \<open>The random module\<close>

text \<open>
  \<open>random.choice(seq)\<close> raises IndexError on an empty sequence and otherwise returns
  \<open>seq[i]\<close> for an index \<open>i\<close> drawn uniformly below \<open>len(seq)\<close>. The draw is
  the argument \<open>rnd\<close>, reduced below the length, so that each of the \<open>len(seq)\<close>
  indices is the image of the same share of draws.
\<close>

definition randbelow :: "nat \<Rightarrow> nat \<Rightarrow> nat" where
  "randbelow rnd n = rnd mod n"

definition choice :: "nat \<Rightarrow> 'a list \<Rightarrow> error + 'a" where
  "choice rnd seq = (if seq = [] then Inl IndexError else Inr (seq ! randbelow rnd (length seq)))"

section \<open>Python floats\<close>

text \<open>
  \<open>round(x)\<close> rounds to the nearest integer and a half to the even neighbour.
\<close>

definition py_round :: "real \<Rightarrow> int" where
  "py_round x =
     (let f = \<lfloor>x\<rfloor>; d = x - of_int f
      in if d < 1 / 2 then f else if d > 1 / 2 then f + 1 else if even f then f else f + 1)"

text \<open>
  A Python float is an IEEE binary64 number. The finite ones are the integer multiples
  \<open>m * 2 ^ j * tiny\<close> of the smallest positive double \<open>tiny = 2 ^ -1074\<close> with
  \<open>\<bar>m\<bar> < 2 ^ 53\<close> that are below \<open>2 ^ 1024\<close> in magnitude. Around a real \<open>x\<close>
  with \<open>2 ^ e \<le> \<bar>x\<bar> < 2 ^ (e + 1)\<close> the doubles are \<open>2 ^ (e - 52)\<close> apart,
  and \<open>tiny\<close> apart when \<open>e < -1022\<close>: \<open>quantum x\<close> is the exponent of that
  spacing counted from \<open>-1074\<close>, read off the number of bits of \<open>\<bar>x\<bar> / tiny\<close>.
  \<open>double_round\<close> is the rounding of the arithmetic, to the nearest multiple of the
  spacing and to the even one when two are equally near. \<open>a * b\<close> on floats is the
  rounded exact product; a rounded product of magnitude \<open>2 ^ 1024\<close> or more is
  infinite in Python, which is \<open>None\<close> here: the tables of the model hold finite
  numbers only.
\<close>

definition tiny :: real where
  "tiny = 1 / 2 ^ 1074"

definition quantum :: "real \<Rightarrow> nat" where
  "quantum x = nat (bitlen \<lfloor>\<bar>x\<bar> / tiny\<rfloor> - 53)"

definition double_round :: "real \<Rightarrow> real" where
  "double_round x =
     of_int (py_round (x / (tiny * 2 ^ quantum x))) * (tiny * 2 ^ quantum x)"



section \<open>actor.py\<close>

text \<open>
  Both tables are \<open>defaultdict(lambda: 0)\<close>: reading an absent key returns 0 and
  stores the key with that value.
\<close>

definition defaultdict_getitem :: "('p \<rightharpoonup> real) \<Rightarrow> 'p \<Rightarrow> real \<times> ('p \<rightharpoonup> real)" where
  "defaultdict_getitem d k = (case d k of None \<Rightarrow> (0, d(k \<mapsto> 0)) | Some v \<Rightarrow> (v, d))"

record 'p actor =
  policy :: "'p \<rightharpoonup> real"
  state_action_eligibility :: "'p \<rightharpoonup> real"
  lrate :: real
  drate :: real
  trace_decay :: real

definition Actor_init :: "real \<Rightarrow> real \<Rightarrow> real \<Rightarrow> 'p actor" where
  "Actor_init lr dr td =
     \<lparr>policy = Map.empty, state_action_eligibility = Map.empty,
      lrate = lr, drate = dr, trace_decay = td\<rparr>"

definition initiate_eligibility :: "'p actor \<Rightarrow> 'p actor" where
  "initiate_eligibility self = self\<lparr>state_action_eligibility := Map.empty\<rparr>"

definition get_state_action_eligibility :: "'p actor \<Rightarrow> 'p \<Rightarrow> real \<times> 'p actor" where
  "get_state_action_eligibility self state_action_pair =
     (case defaultdict_getitem (state_action_eligibility self) state_action_pair of
        (v, d) \<Rightarrow> (v, self\<lparr>state_action_eligibility := d\<rparr>))"


definition get_state_action_value :: "'p actor \<Rightarrow> 'p \<Rightarrow> real \<times> 'p actor" where
  "get_state_action_value self state_action_pair =
     (case defaultdict_getitem (policy self) state_action_pair of
        (v, d) \<Rightarrow> (v, self\<lparr>policy := d\<rparr>))"

definition set_state_action_value :: "'p actor \<Rightarrow> 'p \<Rightarrow> real \<Rightarrow> 'p actor" where
  "set_state_action_value self state_action_pair v =
     self\<lparr>policy := (policy self)(state_action_pair \<mapsto> v)\<rparr>"

text \<open>
  \<open>update_state_action_value\<close>: the value is read first, then the eligibility, and
  the product is \<open>(lrate * td_error) * eligibility\<close> as Python groups it.
\<close>

definition update_state_action_value :: "'p actor \<Rightarrow> 'p \<Rightarrow> real \<Rightarrow> 'p actor" where
  "update_state_action_value self state_action_pair td_error =
     (case get_state_action_value self state_action_pair of (old_value, self1) \<Rightarrow>
      case get_state_action_eligibility self1 state_action_pair of (elig, self2) \<Rightarrow>
        set_state_action_value self2 state_action_pair
          (old_value + lrate self2 * td_error * elig))"


text \<open>
  The loop of \<open>get_proposed_action\<close>. \<open>best_state_action_value\<close> starts at
  \<open>float('-inf')\<close>, written \<open>None\<close>: every table value is greater than it and
  none is equal to it. The key is the tuple \<open>(*state, action)\<close>.
\<close>

fun argmax_loop ::
  "'a list actor \<Rightarrow> 'a list \<Rightarrow> 'a list \<Rightarrow> 'a list \<Rightarrow> real option
     \<Rightarrow> 'a list \<times> real option \<times> 'a list actor" where
  "argmax_loop self state [] best_action best_state_action_value =
     (best_action, best_state_action_value, self)"
| "argmax_loop self state (action # rest) best_action best_state_action_value =
     (case get_state_action_value self (state @ [action]) of (state_action_value, self1) \<Rightarrow>
        if (case best_state_action_value of None \<Rightarrow> True | Some b \<Rightarrow> state_action_value > b)
        then argmax_loop self1 state rest [action] (Some state_action_value)
        else if best_state_action_value = Some state_action_value
        then argmax_loop self1 state rest (best_action @ [action]) best_state_action_value
        else argmax_loop self1 state rest best_action best_state_action_value)"

definition get_proposed_action ::
  "'a list actor \<Rightarrow> nat \<Rightarrow> bool \<Rightarrow> 'a list \<Rightarrow> 'a list \<Rightarrow> (error + 'a) \<times> 'a list actor" where
  "get_proposed_action self rnd do_argmax state possible_actions =
     (if \<not> do_argmax then (choice rnd possible_actions, self)
      else case argmax_loop self state possible_actions [] None of
             (best_action, best_state_action_value, self1) \<Rightarrow> (choice rnd best_action, self1))"

text \<open>What a read of the tables returns, without the object after the read.\<close>

definition value_of :: "'p actor \<Rightarrow> 'p \<Rightarrow> real" where
  "value_of self state_action_pair = fst (get_state_action_value self state_action_pair)"

definition eligibility_of :: "'p actor \<Rightarrow> 'p \<Rightarrow> real" where
  "eligibility_of self state_action_pair = fst (get_state_action_eligibility self state_action_pair)"

section \<open>Python sequences\<close>

text \<open>
  \<open>seq.index(v)\<close> returns the first position of \<open>v\<close> and raises ValueError when
  \<open>v\<close> does not occur. \<open>xs[i] = v\<close> counts a negative index from the end and
  raises IndexError out of range.
\<close>

definition tuple_index :: "'a list \<Rightarrow> 'a \<Rightarrow> error + int" where
  "tuple_index xs v =
     (if v \<in> set xs then Inr (int (length (takeWhile (\<lambda>x. x \<noteq> v) xs))) else Inl ValueError)"

definition list_setitem :: "'a list \<Rightarrow> int \<Rightarrow> 'a \<Rightarrow> error + 'a list" where
  "list_setitem xs i v =
     (let n = int (length xs); j = (if i < 0 then n + i else i)
      in if 0 \<le> j \<and> j < n then Inr (xs[nat j := v]) else Inl IndexError)"

section \<open>gambler.py\<close>

text \<open>
  \<open>best_game_length\<close> starts at \<open>float('inf')\<close>, written \<open>None\<close>.
\<close>

record gambler =
  max_coins :: int
  min_bet :: int
  state :: int
  win_prob :: real
  current_step :: int
  max_steps :: int
  failed :: bool
  history :: "int list"
  historic_game_length :: "int list"
  best_history :: "int list"
  best_game_length :: "int option"
  possible_actions :: "int list"

definition Gambler_get_current_state :: "gambler \<Rightarrow> error + int list" where
  "Gambler_get_current_state self =
     list_setitem (replicate (nat (max_coins self + 1)) 0) (state self) 1"

text \<open>\<open>drawn\<close> is the result of \<open>randint(1, 99)\<close>.\<close>

definition Gambler_produce_initial_state :: "gambler \<Rightarrow> int \<Rightarrow> (error + int list) \<times> gambler" where
  "Gambler_produce_initial_state self drawn =
     (let self1 = self\<lparr>gambler.current_step := 0, state := drawn, failed := False,
                       history := [drawn]\<rparr>
      in (Gambler_get_current_state self1, self1))"

definition Gambler_init :: "real \<Rightarrow> int \<Rightarrow> int \<Rightarrow> gambler" where
  "Gambler_init wp ms drawn =
     snd (Gambler_produce_initial_state
       \<lparr>max_coins = 100, min_bet = 1, state = 0, win_prob = wp, gambler.current_step = 0,
        max_steps = ms, failed = False, history = [], gambler.historic_game_length = [],
        gambler.best_history = [], gambler.best_game_length = None, possible_actions = []\<rparr>
       drawn)"

definition Gambler_action_is_legal :: "gambler \<Rightarrow> int \<Rightarrow> bool" where
  "Gambler_action_is_legal self action =
     (let dist_to_win = max_coins self - state self;
          dist_to_lose = state self;
          max_bet = min dist_to_lose dist_to_win
      in action \<ge> min_bet self \<and> action \<le> max_bet)"

text \<open>\<open>u\<close> is the result of \<open>random()\<close>, a number in the interval from 0 to 1, 1 excluded.\<close>

definition Gambler_get_child_state :: "gambler \<Rightarrow> real \<Rightarrow> int \<Rightarrow> int" where
  "Gambler_get_child_state self u action =
     (if u < win_prob self then state self + action else state self - action)"

definition Gambler_update :: "gambler \<Rightarrow> real \<Rightarrow> int \<Rightarrow> (error + int) \<times> gambler" where
  "Gambler_update self u action =
     (let self1 = self\<lparr>gambler.current_step := gambler.current_step self + 1\<rparr>
      in if \<not> Gambler_action_is_legal self1 action then (Inl IllegalAction, self1)
         else
           let old_state = state self1;
               self2 = self1\<lparr>state := Gambler_get_child_state self1 u action\<rparr>;
               self3 = self2\<lparr>history := history self2 @ [state self2]\<rparr>;
               self4 = (if \<not> failed self3
                        then (if gambler.current_step self3 \<ge> max_steps self3 \<or> state self3 = 0
                              then self3\<lparr>failed := True\<rparr> else self3)
                        else self3);
               reward = state self4 - old_state
           in (Inr reward, self4))"

definition Gambler_is_current_state_final_state :: "gambler \<Rightarrow> bool" where
  "Gambler_is_current_state_final_state self = (state self = max_coins self)"

definition Gambler_is_current_state_failed_state :: "gambler \<Rightarrow> bool" where
  "Gambler_is_current_state_failed_state self = failed self"

text \<open>
  \<open>get_legal_actions(state=None)\<close>: the argument is \<open>None\<close> or a one-hot tuple,
  whose coin count is the position of its 1. \<open>list(range(a, b))\<close> is \<open>[a..b - 1]\<close>.
\<close>

definition Gambler_get_legal_actions :: "gambler \<Rightarrow> int list option \<Rightarrow> error + int list" where
  "Gambler_get_legal_actions self st =
     (case (case st of None \<Rightarrow> Inr (state self) | Some oh \<Rightarrow> tuple_index oh 1) of
        Inl e \<Rightarrow> Inl e
      | Inr s \<Rightarrow>
          let dist_to_win = max_coins self - s;
              dist_to_lose = s;
              max_bet = min dist_to_lose dist_to_win
          in Inr ([min_bet self] @ [min_bet self + 1 .. max_bet]))"

definition Gambler_store_game_length :: "gambler \<Rightarrow> gambler" where
  "Gambler_store_game_length self =
     (let self1 =
        (if (case gambler.best_game_length self of None \<Rightarrow> True
             | Some b \<Rightarrow> gambler.current_step self < b)
         then self\<lparr>gambler.best_history := history self,
                   gambler.best_game_length := Some (gambler.current_step self)\<rparr>
         else self)
      in self1\<lparr>gambler.historic_game_length :=
                 gambler.historic_game_length self1 @ [gambler.current_step self1]\<rparr>)"

text \<open>
  A caller that issues a sequence of \<open>update\<close> calls, each with its draw and wager.
  After a call that raises, the caller goes on with the object as the raise left it.
\<close>

fun Gambler_run :: "gambler \<Rightarrow> (real \<times> int) list \<Rightarrow> gambler" where
  "Gambler_run self [] = self"
| "Gambler_run self ((u, action) # calls) = Gambler_run (snd (Gambler_update self u action)) calls"

section \<open>pole_balancing.py\<close>

text \<open>
  \<open>np.sign\<close> is \<open>sgn\<close>; \<open>round\<close> is \<open>py_round\<close>.
  \<open>best_game_length\<close> starts at \<open>float('-inf')\<close>, written \<open>None\<close>. The
  attribute \<open>length\<close> is the field \<open>length_pole\<close>.
\<close>

record pole_balancing =
  length_pole :: real
  mass_p :: real
  gravity :: real
  tau :: real
  mass_c :: real
  force :: real
  max_angle :: real
  max_x_pos :: real
  steps :: int
  angle :: real
  angle_vel :: real
  x_pos :: real
  x_vel :: real
  current_step :: int
  balancing_failed :: bool
  cart_exited :: bool
  historic_angle :: "real list"
  best_history :: "real list"
  best_game_length :: "int option"
  historic_game_length :: "int list"

text \<open>
  \<open>one_hot_variable\<close>: the position of the first value of
  \<open>range(-abs_max, abs_max + 1)\<close> that \<open>rounded_var\<close> does not exceed gets the 1,
  the last position when there is none. \<open>abs_max\<close> is 1 or 3 at every call.
\<close>

fun one_hot_loop :: "real \<Rightarrow> nat \<Rightarrow> int list \<Rightarrow> nat option" where
  "one_hot_loop rounded_var i [] = None"
| "one_hot_loop rounded_var i (val # vals) =
     (if rounded_var \<le> of_int val then Some i else one_hot_loop rounded_var (Suc i) vals)"

definition one_hot_variable :: "real \<Rightarrow> nat \<Rightarrow> int list" where
  "one_hot_variable rounded_var abs_max =
     (let vector = replicate (abs_max * 2 + 1) (0::int)
      in case one_hot_loop rounded_var 0 [- int abs_max .. int abs_max] of
           Some i \<Rightarrow> vector[i := 1]
         | None \<Rightarrow> vector[length vector - 1 := 1])"

definition one_hot_state :: "real \<times> real \<times> real \<times> real \<Rightarrow> int list" where
  "one_hot_state rounded_state =
     (case rounded_state of (r0, r1, r2, r3) \<Rightarrow>
        one_hot_variable r0 1 @ one_hot_variable r1 3 @
        one_hot_variable r2 1 @ one_hot_variable r3 3)"

definition round_state :: "real \<times> real \<times> real \<times> real \<Rightarrow> int list" where
  "round_state st =
     (case st of (s0, s1, s2, s3) \<Rightarrow>
        one_hot_state (sgn s0, of_int (py_round s1), sgn s2, of_int (py_round s3)))"

definition PoleBalancing_get_current_state :: "pole_balancing \<Rightarrow> int list" where
  "PoleBalancing_get_current_state self =
     round_state (x_pos self, x_vel self, angle self, angle_vel self)"

text \<open>\<open>drawn\<close> is the result of \<open>uniform(-max_angle, max_angle)\<close>.\<close>

definition PoleBalancing_produce_initial_state ::
  "pole_balancing \<Rightarrow> real \<Rightarrow> int list \<times> pole_balancing" where
  "PoleBalancing_produce_initial_state self drawn =
     (let self1 = self\<lparr>angle := drawn, angle_vel := 0, x_pos := 0, x_vel := 0,
                       current_step := 0, balancing_failed := False, cart_exited := False,
                       historic_angle := [drawn]\<rparr>
      in (PoleBalancing_get_current_state self1, self1))"

definition PoleBalancing_init ::
  "real \<Rightarrow> real \<Rightarrow> real \<Rightarrow> real \<Rightarrow> int \<Rightarrow> real \<Rightarrow> pole_balancing" where
  "PoleBalancing_init len mp g t ms drawn =
     snd (PoleBalancing_produce_initial_state
       \<lparr>length_pole = len, mass_p = mp, gravity = g, tau = t, mass_c = 1, force = 10,
        max_angle = 21 / 100, max_x_pos = 24 / 10, steps = ms,
        angle = 0, angle_vel = 0, x_pos = 0, x_vel = 0, current_step = 0,
        balancing_failed = False, cart_exited = False, historic_angle = [],
        best_history = [], best_game_length = None, historic_game_length = []\<rparr>
       drawn)"

definition update_angle_acc :: "pole_balancing \<Rightarrow> real \<Rightarrow> real" where
  "update_angle_acc self bb_force =
     (let numerator_fraction =
            (cos (angle self) *
              (- bb_force - mass_p self * length_pole self * (angle_vel self)\<^sup>2 * sin (angle self)))
            / (mass_p self + mass_c self);
          numerator = gravity self * sin (angle self) + numerator_fraction;
          denominator =
            length_pole self *
              (4 / 3 - (mass_p self * (cos (angle self))\<^sup>2) / (mass_p self + mass_c self))
      in numerator / denominator)"

definition update_x_acc :: "pole_balancing \<Rightarrow> real \<Rightarrow> real \<Rightarrow> real" where
  "update_x_acc self bb_force angle_acc =
     (let numerator =
            bb_force + mass_p self * length_pole self *
              ((angle_vel self)\<^sup>2 * sin (angle self) - angle_acc * cos (angle self));
          denominator = mass_p self + mass_c self
      in numerator / denominator)"

text \<open>
  \<open>get_child_state(action, rounded=False)\<close> returns the four numbers;
  with \<open>rounded=True\<close> it returns their one-hot encoding, which is the second
  definition. \<open>[-force, force][action]\<close> reads position 0 for \<open>False\<close> and
  position 1 for \<open>True\<close>.
\<close>

definition bang_bang_force :: "pole_balancing \<Rightarrow> bool \<Rightarrow> real" where
  "bang_bang_force self action = [- force self, force self] ! (if action then 1 else 0)"

definition PoleBalancing_get_child_state ::
  "pole_balancing \<Rightarrow> bool \<Rightarrow> real \<times> real \<times> real \<times> real" where
  "PoleBalancing_get_child_state self action =
     (let bb_force = bang_bang_force self action;
          angle_acc = update_angle_acc self bb_force;
          x_acc = update_x_acc self bb_force angle_acc;
          x_pos1 = x_pos self + tau self * x_vel self;
          x_vel1 = x_vel self + tau self * x_acc;
          angle1 = angle self + tau self * angle_vel self;
          angle_vel1 = angle_vel self + tau self * angle_acc
      in (x_pos1, x_vel1, angle1, angle_vel1))"

definition PoleBalancing_get_child_state_rounded :: "pole_balancing \<Rightarrow> bool \<Rightarrow> int list" where
  "PoleBalancing_get_child_state_rounded self action =
     round_state (PoleBalancing_get_child_state self action)"

definition PoleBalancing_is_current_state_final_state :: "pole_balancing \<Rightarrow> bool" where
  "PoleBalancing_is_current_state_final_state self =
     (current_step self \<ge> steps self \<and> \<not> cart_exited self \<and> \<not> balancing_failed self)"

definition PoleBalancing_is_current_state_failed_state :: "pole_balancing \<Rightarrow> bool" where
  "PoleBalancing_is_current_state_failed_state self = (cart_exited self \<or> balancing_failed self)"

text \<open>\<open>update\<close> calls \<open>get_child_state(action)\<close>, so \<open>rounded\<close> is \<open>False\<close>.\<close>

definition PoleBalancing_update :: "pole_balancing \<Rightarrow> bool \<Rightarrow> int \<times> pole_balancing" where
  "PoleBalancing_update self action =
     (let self1 = self\<lparr>current_step := current_step self + 1\<rparr>
      in case PoleBalancing_get_child_state self1 action of
           (nx_pos, nx_vel, nangle, nangle_vel) \<Rightarrow>
             let self2 = self1\<lparr>x_pos := nx_pos, x_vel := nx_vel, angle := nangle,
                               angle_vel := nangle_vel\<rparr>;
                 self3 = self2\<lparr>historic_angle := historic_angle self2 @ [angle self2]\<rparr>;
                 self4 = (if \<not> balancing_failed self3
                          then (if \<bar>angle self3\<bar> \<ge> max_angle self3
                                then self3\<lparr>balancing_failed := True\<rparr> else self3)
                          else self3);
                 self5 = (if \<not> cart_exited self4
                          then (if \<bar>x_pos self4\<bar> \<ge> max_x_pos self4
                                then self4\<lparr>cart_exited := True\<rparr> else self4)
                          else self4)
             in if PoleBalancing_is_current_state_failed_state self5 then (- 1000, self5)
                else (1, self5))"

definition PoleBalancing_get_legal_actions :: "pole_balancing \<Rightarrow> int list option \<Rightarrow> bool list" where
  "PoleBalancing_get_legal_actions self st = [False, True]"

definition PoleBalancing_store_game_length :: "pole_balancing \<Rightarrow> pole_balancing" where
  "PoleBalancing_store_game_length self =
     (let self1 =
        (if (case best_game_length self of None \<Rightarrow> True | Some b \<Rightarrow> current_step self > b)
         then self\<lparr>best_history := historic_angle self,
                   best_game_length := Some (current_step self)\<rparr>
         else self)
      in self1\<lparr>historic_game_length := historic_game_length self1 @ [current_step self1]\<rparr>)"

text \<open>A caller that issues a sequence of \<open>update\<close> calls, one per action.\<close>

fun PoleBalancing_run :: "pole_balancing \<Rightarrow> bool list \<Rightarrow> pole_balancing" where
  "PoleBalancing_run self [] = self"
| "PoleBalancing_run self (action # actions) =
     PoleBalancing_run (snd (PoleBalancing_update self action)) actions"

section \<open>Notions used in the statements\<close>



text \<open>
  The value \<open>best_state_action_value\<close> holds when the loop of
  \<open>get_proposed_action\<close> has read the values \<open>vs\<close>, started from \<open>bv\<close>.
\<close>

fun final_best :: "real option \<Rightarrow> real list \<Rightarrow> real option" where
  "final_best bv [] = bv"
| "final_best bv (v # vs) =
     final_best (case bv of None \<Rightarrow> Some v | Some b \<Rightarrow> Some (max b v)) vs"

text \<open>
  An actor whose table holds 1, 1 and 1/2 for the actions 1, 2 and 3 in the state
  \<open>(0,)\<close>, and an actor with \<open>drate = trace_decay = 0.125\<close> and one eligibility
  entry, 1.
\<close>

definition tied_actor :: "nat list actor" where
  "tied_actor =
     set_state_action_value (set_state_action_value (set_state_action_value
       (Actor_init (1 / 10) (9 / 10) (1 / 2)) [0, 1] 1) [0, 2] 1) [0, 3] (1 / 2)"


text \<open>
  Worlds used as concrete inputs: the pole world with the constructor's default constants
  started upright, the same started at the lower bound of the angle, a gambler with a
  step limit of 2 and 50 coins, a gambler with the default step limit of 300 and 50
  coins, and a gambler who has lost the last coin. \<open>see_saw n\<close> is a won wager of 1
  followed by a lost wager of 1, \<open>n\<close> times over, for a \<open>win_prob\<close> of 0.4.
\<close>

definition resting_pole :: pole_balancing where
  "resting_pole = PoleBalancing_init (1 / 2) (1 / 10) (- 98 / 10) (2 / 100) 300 0"

definition edge_pole :: pole_balancing where
  "edge_pole = PoleBalancing_init (1 / 2) (1 / 10) (- 98 / 10) (2 / 100) 300 (- 21 / 100)"

definition hasty_gambler :: gambler where
  "hasty_gambler = Gambler_init (4 / 10) 2 50"

definition default_gambler :: gambler where
  "default_gambler = Gambler_init (4 / 10) 300 50"

definition see_saw :: "nat \<Rightarrow> (real \<times> int) list" where
  "see_saw n = concat (replicate n [(0, 1), (9 / 10, 1)])"

definition broke_gambler :: gambler where
  "broke_gambler = snd (Gambler_update (Gambler_init (4 / 10) 300 1) (1 / 2) 1)"

section \<open>Properties of the rounding of floats\<close>

lemma tiny_pos: "0 < tiny"
  by (simp add: tiny_def)
















lemma quantum_eq:
  assumes "2 ^ (52 + j) \<le> \<bar>x\<bar> / tiny" "\<bar>x\<bar> / tiny < 2 ^ (53 + j)"
  shows "quantum x = j"
proof -
  let ?F = "\<lfloor>\<bar>x\<bar> / tiny\<rfloor>"
  have "of_int (2 ^ (52 + j)) \<le> \<bar>x\<bar> / tiny" using assms(1) by simp
  then have lo: "2 ^ (52 + j) \<le> ?F" by (simp only: le_floor_iff)
  have "\<bar>x\<bar> / tiny < of_int (2 ^ (53 + j))" using assms(2) by simp
  then have hi: "?F < 2 ^ (53 + j)" by (simp only: floor_less_iff)
  have "bitlen ?F \<le> int (53 + j)"
    using hi bitlen_le_iff_power[of ?F "int (53 + j)"] by (simp only: nat_int) simp
  moreover have "int (53 + j) \<le> bitlen ?F"
    using lo bitlen_ge_iff_power[of "int (53 + j)" ?F] by (simp add: nat_add_distrib)
  ultimately have "bitlen ?F = int (53 + j)" by linarith
  then show ?thesis by (simp add: quantum_def)
qed

lemma quantum_subnormal:
  assumes "\<bar>x\<bar> / tiny < 2 ^ 53"
  shows "quantum x = 0"
proof -
  let ?F = "\<lfloor>\<bar>x\<bar> / tiny\<rfloor>"
  have "\<bar>x\<bar> / tiny < of_int (2 ^ 53)" using assms by simp
  then have "?F < 2 ^ 53" by (simp only: floor_less_iff)
  then have "bitlen ?F \<le> 53" using bitlen_le_iff_power[of ?F 53] by simp
  then show ?thesis by (simp add: quantum_def)
qed

text \<open>
  The float \<open>0.1\<close>, and two ties next to 0: half of the smallest double rounds to 0,
  one and a half times it rounds to twice it.
\<close>

lemma double_round_examples:
  "double_round (1 / 10) = 3602879701896397 / 2 ^ 55"
  "double_round (tiny / 2) = 0"
  "double_round (3 * tiny / 2) = 2 * tiny"
proof -
  define P :: real where "P = 2 ^ 1070"
  have P: "0 < P" by (simp add: P_def)
  have t: "1 / tiny = 16 * P" by (simp add: tiny_def P_def)
  have a: "\<bar>1 / 10 :: real\<bar> / tiny = 16 * P / 10"
    using t by (simp add: field_simps)
  have "(2::real) ^ (52 + 1018) = P" "(2::real) ^ (53 + 1018) = 2 * P" by (simp_all add: P_def)
  then have "2 ^ (52 + 1018) \<le> \<bar>1 / 10 :: real\<bar> / tiny" "\<bar>1 / 10 :: real\<bar> / tiny < 2 ^ (53 + 1018)"
    unfolding a using P by simp_all
  then have q: "quantum (1 / 10) = 1018" by (rule quantum_eq)
  have "tiny * 2 ^ 1018 = 1 / 2 ^ 56" by (simp add: tiny_def)
  then have g: "tiny * 2 ^ quantum (1 / 10) = 1 / 2 ^ 56" by (simp only: q)
  have "py_round ((1 / 10) / (1 / 2 ^ 56)) = 7205759403792794" by (simp add: py_round_def)
  then show "double_round (1 / 10) = 3602879701896397 / 2 ^ 55"
    by (simp only: double_round_def g) simp
  have "\<bar>tiny / 2\<bar> / tiny = 1 / 2" using tiny_pos by simp
  then have "quantum (tiny / 2) = 0" by (intro quantum_subnormal) simp
  moreover have "(tiny / 2) / (tiny * 2 ^ 0) = 1 / 2" using tiny_pos by simp
  moreover have "py_round (1 / 2) = 0" by (simp add: py_round_def)
  ultimately show "double_round (tiny / 2) = 0" by (simp add: double_round_def)
  have "\<bar>3 * tiny / 2\<bar> / tiny = 3 / 2" using tiny_pos by simp
  then have "quantum (3 * tiny / 2) = 0" by (intro quantum_subnormal) simp
  moreover have "(3 * tiny / 2) / (tiny * 2 ^ 0) = 3 / 2" using tiny_pos by simp
  moreover have "py_round (3 / 2) = 2" by (simp add: py_round_def)
  ultimately show "double_round (3 * tiny / 2) = 2 * tiny" by (simp add: double_round_def)
qed

section \<open>Properties of the Actor\<close>

lemma value_of_eq: "value_of self k = (case policy self k of None \<Rightarrow> 0 | Some v \<Rightarrow> v)"
  by (simp add: value_of_def get_state_action_value_def defaultdict_getitem_def split: option.split)

lemma eligibility_of_eq:
  "eligibility_of self k = (case state_action_eligibility self k of None \<Rightarrow> 0 | Some v \<Rightarrow> v)"
  by (simp add: eligibility_of_def get_state_action_eligibility_def defaultdict_getitem_def
      split: option.split)

subsection \<open>The update of a state-action value\<close>

lemma update_value_stored:
  "policy (update_state_action_value self k td) k =
     Some (value_of self k + lrate self * td * eligibility_of self k)"
  by (simp add: update_state_action_value_def get_state_action_value_def
      get_state_action_eligibility_def set_state_action_value_def defaultdict_getitem_def
      value_of_def eligibility_of_def split: option.split prod.split)

text \<open>
  Claim C1. For every pair, every TD error and every contents of the tables,
  \<open>update_state_action_value\<close> stores for the pair its old value plus
  \<open>lrate * td_error * eligibility\<close>, where the old value and the eligibility are the
  pair's entries before the call and 0 when the pair is absent; a later read returns
  that value.
\<close>

theorem update_state_action_value_stores:
  "policy (update_state_action_value self state_action_pair td_error) state_action_pair =
     Some ((case policy self state_action_pair of None \<Rightarrow> 0 | Some v \<Rightarrow> v) +
           lrate self * td_error *
           (case state_action_eligibility self state_action_pair of None \<Rightarrow> 0 | Some e \<Rightarrow> e))
   \<and> value_of (update_state_action_value self state_action_pair td_error) state_action_pair =
     value_of self state_action_pair + lrate self * td_error * eligibility_of self state_action_pair"
  using update_value_stored[of self state_action_pair td_error]
  by (simp add: value_of_eq eligibility_of_eq)

subsection \<open>The decay of an eligibility\<close>



















subsection \<open>The greedy choice\<close>

lemma final_best_Some: "\<exists>m. final_best (Some b) vs = Some m \<and> b \<le> m"
proof (induction vs arbitrary: b)
  case Nil
  show ?case by simp
next
  case (Cons v vs)
  from Cons[of "max b v"] obtain m where "final_best (Some (max b v)) vs = Some m" "max b v \<le> m"
    by blast
  then show ?case by simp
qed

lemma final_best_upper: "final_best bv vs = Some m \<Longrightarrow> v \<in> set vs \<Longrightarrow> v \<le> m"
proof (induction vs arbitrary: bv)
  case Nil then show ?case by simp
next
  case (Cons a vs)
  show ?case
  proof (cases "v = a")
    case True
    obtain b' where b': "(case bv of None \<Rightarrow> Some a | Some b \<Rightarrow> Some (max b a)) = Some b'" "a \<le> b'"
      by (cases bv) auto
    with Cons.prems(1) have "final_best (Some b') vs = Some m" by simp
    with final_best_Some[of b' vs] have "b' \<le> m" by auto
    with b' True show ?thesis by simp
  next
    case False
    with Cons show ?thesis by auto
  qed
qed

lemma final_best_attained:
  "final_best bv vs = Some m \<Longrightarrow> bv = Some m \<or> m \<in> set vs"
proof (induction vs arbitrary: bv)
  case Nil then show ?case by simp
next
  case (Cons a vs)
  from Cons.prems have
    "final_best (case bv of None \<Rightarrow> Some a | Some b \<Rightarrow> Some (max b a)) vs = Some m" by simp
  from Cons.IH[OF this] show ?case
    by (cases bv) (auto simp: max_def split: if_splits)
qed

lemma value_of_read: "value_of (snd (get_state_action_value self k)) k' = value_of self k'"
  by (simp add: value_of_def get_state_action_value_def defaultdict_getitem_def split: option.split)

lemma argmax_loop_closed:
  "fst (argmax_loop self st acts best bv) =
     (if final_best bv (map (\<lambda>x. value_of self (st @ [x])) acts) = bv then best else []) @
     filter (\<lambda>x. Some (value_of self (st @ [x])) = final_best bv (map (\<lambda>x. value_of self (st @ [x])) acts)) acts"
proof (induction acts arbitrary: self best bv)
  case Nil
  then show ?case by simp
next
  case (Cons a rest)
  obtain v self1 where g: "get_state_action_value self (st @ [a]) = (v, self1)"
    by (cases "get_state_action_value self (st @ [a])")
  have v: "v = value_of self (st @ [a])" using g by (simp add: value_of_def)
  have s1: "\<And>k. value_of self1 k = value_of self k"
    using value_of_read[of self "st @ [a]"] g by simp
  let ?V = "\<lambda>x. value_of self (st @ [x])"
  show ?case
  proof (cases bv)
    case None
    obtain m where m: "final_best (Some v) (map ?V rest) = Some m" "v \<le> m"
      using final_best_Some by blast
    show ?thesis using None g Cons.IH[of self1 "[a]" "Some v"] m v s1
      by (auto)
  next
    case (Some b)
    consider "v > b" | "v = b" | "v < b" by linarith
    then show ?thesis
    proof cases
      case 1
      obtain m where m: "final_best (Some v) (map ?V rest) = Some m" "v \<le> m"
        using final_best_Some by blast
      have mx: "max b v = v" using 1 by simp
      show ?thesis using Some 1 g Cons.IH[of self1 "[a]" "Some v"] m v s1 mx
        by (auto)
    next
      case 2
      have mx: "max b v = b" using 2 by simp
      show ?thesis using Some 2 g Cons.IH[of self1 "best @ [a]" "Some b"] v s1 mx
        by (auto)
    next
      case 3
      obtain m where m: "final_best (Some b) (map ?V rest) = Some m" "b \<le> m"
        using final_best_Some by blast
      have mx: "max b v = b" using 3 by simp
      show ?thesis using Some 3 g Cons.IH[of self1 "best" "Some b"] v s1 mx m
        by (auto)
    qed
  qed
qed

lemma best_action_maximisers:
  assumes "acts \<noteq> []"
  shows "fst (argmax_loop self st acts [] None) =
     filter (\<lambda>x. \<forall>b\<in>set acts. value_of self (st @ [b]) \<le> value_of self (st @ [x])) acts"
proof -
  let ?V = "\<lambda>x. value_of self (st @ [x])"
  obtain a rest where acts: "acts = a # rest" using assms by (cases acts) auto
  obtain m where m: "final_best None (map ?V acts) = Some m"
    using final_best_Some[of "?V a" "map ?V rest"] acts by auto
  have up: "\<And>b. b \<in> set acts \<Longrightarrow> ?V b \<le> m"
    using final_best_upper[OF m] by auto
  have "m \<in> set (map ?V acts)" using final_best_attained[OF m] by simp
  then obtain c where c: "c \<in> set acts" "?V c = m" by auto
  have "filter (\<lambda>x. Some (?V x) = Some m) acts = filter (\<lambda>x. \<forall>b\<in>set acts. ?V b \<le> ?V x) acts"
  proof (rule filter_cong[OF refl])
    fix x assume x: "x \<in> set acts"
    show "(Some (?V x) = Some m) = (\<forall>b\<in>set acts. ?V b \<le> ?V x)"
    proof
      assume "Some (?V x) = Some m"
      then show "\<forall>b\<in>set acts. ?V b \<le> ?V x" using up by simp
    next
      assume "\<forall>b\<in>set acts. ?V b \<le> ?V x"
      then have "m \<le> ?V x" using c by auto
      moreover have "?V x \<le> m" using up[OF x] .
      ultimately show "Some (?V x) = Some m" by simp
    qed
  qed
  then show ?thesis using argmax_loop_closed[of self st acts "[]" None] m by simp
qed

lemma maximisers_nonempty:
  assumes "acts \<noteq> []"
  shows "filter (\<lambda>x. \<forall>b\<in>set acts. (V b :: real) \<le> V x) acts \<noteq> []"
proof -
  have "finite (V ` set acts)" "V ` set acts \<noteq> {}" using assms by auto
  then have "Max (V ` set acts) \<in> V ` set acts" by (rule Max_in)
  then obtain c where c: "c \<in> set acts" "V c = Max (V ` set acts)" by auto
  have "\<forall>b\<in>set acts. V b \<le> V c" using c by (simp)
  with c(1) show ?thesis by (auto simp: filter_empty_conv)
qed

lemma get_proposed_action_argmax_eq:
  assumes "acts \<noteq> []"
  shows "fst (get_proposed_action self rnd True st acts) =
     choice rnd (filter (\<lambda>x. \<forall>b\<in>set acts. value_of self (st @ [b]) \<le> value_of self (st @ [x])) acts)"
  using best_action_maximisers[OF assms, of self st]
  by (auto simp: get_proposed_action_def split: prod.split)

lemma choice_nonempty: "xs \<noteq> [] \<Longrightarrow> choice rnd xs = Inr (xs ! (rnd mod length xs))"
  by (simp add: choice_def randbelow_def)

lemma choice_mem: "xs \<noteq> [] \<Longrightarrow> \<exists>x. choice rnd xs = Inr x \<and> x \<in> set xs"
  by (simp add: choice_nonempty)

lemma choice_every: "x \<in> set xs \<Longrightarrow> \<exists>rnd. rnd < length xs \<and> choice rnd xs = Inr x"
proof -
  assume "x \<in> set xs"
  then obtain i where i: "i < length xs" "xs ! i = x" by (auto simp: in_set_conv_nth)
  then have "xs \<noteq> []" by auto
  then have "choice i xs = Inr x" using i by (simp add: choice_nonempty)
  with i show ?thesis by blast
qed

lemma choice_unique:
  assumes "distinct xs" "x \<in> set xs"
  shows "\<exists>!rnd. rnd < length xs \<and> choice rnd xs = Inr x"
proof -
  from assms(2) have ne: "xs \<noteq> []" by auto
  have "\<exists>!i. i < length xs \<and> xs ! i = x" using assms by (rule distinct_Ex1)
  moreover have "\<And>i. i < length xs \<Longrightarrow> (choice i xs = Inr x) = (xs ! i = x)"
    using ne by (simp add: choice_nonempty)
  ultimately show ?thesis by (metis (no_types, lifting))
qed

text \<open>
  Claim C3. For non-empty \<open>actions\<close>, \<open>get_proposed_action\<close> with
  \<open>do_argmax\<close> set returns, for every draw, an action of the list whose value (key:
  the state followed by the action) is maximal among the list; every action that attains
  the maximum is returned for some draw; an action with a strictly smaller value than
  another of the list is never returned; and when the list has no repetition, each
  maximiser is returned for exactly one of the equally likely draws below the number of
  maximisers, which is the uniform choice among the tied actions.
\<close>

theorem get_proposed_action_argmax:
  assumes "actions \<noteq> []"
  shows
    "(\<exists>x. fst (get_proposed_action self rnd True st actions) = Inr x \<and>
          x \<in> set actions \<and>
          (\<forall>b\<in>set actions. value_of self (st @ [b]) \<le> value_of self (st @ [x])))
   \<and> (\<forall>x\<in>set actions.
         (\<forall>b\<in>set actions. value_of self (st @ [b]) \<le> value_of self (st @ [x])) \<longrightarrow>
         (\<exists>r. fst (get_proposed_action self r True st actions) = Inr x))
   \<and> (\<forall>x\<in>set actions. \<forall>b\<in>set actions.
         value_of self (st @ [x]) < value_of self (st @ [b]) \<longrightarrow>
         fst (get_proposed_action self rnd True st actions) \<noteq> Inr x)
   \<and> (distinct actions \<longrightarrow>
        (\<forall>x\<in>set actions.
          (\<forall>b\<in>set actions. value_of self (st @ [b]) \<le> value_of self (st @ [x])) \<longrightarrow>
          (\<exists>!r. r < length (filter (\<lambda>y. \<forall>b\<in>set actions.
                      value_of self (st @ [b]) \<le> value_of self (st @ [y])) actions) \<and>
                 fst (get_proposed_action self r True st actions) = Inr x)))"
proof -
  note ne = assms
  let ?V = "\<lambda>x. value_of self (st @ [x])"
  let ?M = "filter (\<lambda>y. \<forall>b\<in>set actions. ?V b \<le> ?V y) actions"
  have eq: "\<And>r. fst (get_proposed_action self r True st actions) = choice r ?M"
    using get_proposed_action_argmax_eq[OF ne] by simp
  have Mne: "?M \<noteq> []" using maximisers_nonempty[OF ne] .
  have p1: "\<exists>x. fst (get_proposed_action self rnd True st actions) = Inr x \<and>
          x \<in> set actions \<and> (\<forall>b\<in>set actions. ?V b \<le> ?V x)"
    using choice_mem[OF Mne, of rnd] unfolding eq by auto
  have p2: "\<forall>x\<in>set actions. (\<forall>b\<in>set actions. ?V b \<le> ?V x) \<longrightarrow>
         (\<exists>r. fst (get_proposed_action self r True st actions) = Inr x)"
  proof (intro ballI impI)
    fix x assume "x \<in> set actions" "\<forall>b\<in>set actions. ?V b \<le> ?V x"
    then have "x \<in> set ?M" by simp
    from choice_every[OF this] show "\<exists>r. fst (get_proposed_action self r True st actions) = Inr x"
      unfolding eq by blast
  qed
  have p3: "\<forall>x\<in>set actions. \<forall>b\<in>set actions. ?V x < ?V b \<longrightarrow>
         fst (get_proposed_action self rnd True st actions) \<noteq> Inr x"
  proof (intro ballI impI notI)
    fix x b assume b: "b \<in> set actions" "?V x < ?V b"
      and r: "fst (get_proposed_action self rnd True st actions) = Inr x"
    from p1 r have "\<forall>c\<in>set actions. ?V c \<le> ?V x" by simp
    with b show False by fastforce
  qed
  have p4: "distinct actions \<longrightarrow>
        (\<forall>x\<in>set actions. (\<forall>b\<in>set actions. ?V b \<le> ?V x) \<longrightarrow>
          (\<exists>!r. r < length ?M \<and> fst (get_proposed_action self r True st actions) = Inr x))"
  proof (intro ballI impI)
    fix x assume d: "distinct actions"
      and "x \<in> set actions" "\<forall>b\<in>set actions. ?V b \<le> ?V x"
    then have x: "x \<in> set ?M" by simp
    have "distinct ?M" using d by simp
    from choice_unique[OF this x]
    show "\<exists>!r. r < length ?M \<and> fst (get_proposed_action self r True st actions) = Inr x"
      unfolding eq .
  qed
  from p1 p2 p3 p4 show ?thesis by (intro conjI)
qed

lemmas actor_eval = get_proposed_action_def get_state_action_value_def defaultdict_getitem_def
  set_state_action_value_def Actor_init_def choice_def randbelow_def value_of_eq

theorem get_proposed_action_argmax_witness:
  "[1, 2, 3 :: nat] \<noteq> []
   \<and> value_of tied_actor ([0] @ [1]) = 1
   \<and> value_of tied_actor ([0] @ [2]) = 1
   \<and> value_of tied_actor ([0] @ [3]) = 1 / 2
   \<and> fst (get_proposed_action tied_actor 0 True [0] [1, 2, 3]) = Inr 1
   \<and> fst (get_proposed_action tied_actor 1 True [0] [1, 2, 3]) = Inr 2
   \<and> (\<forall>rnd. fst (get_proposed_action tied_actor rnd True [0] [1, 2, 3]) \<noteq> Inr 3)"
proof -
  have ne: "[1, 2, 3 :: nat] \<noteq> []" by simp
  have v1: "value_of tied_actor ([0] @ [1]) = 1" by (simp add: tied_actor_def actor_eval)
  have v2: "value_of tied_actor ([0] @ [2]) = 1" by (simp add: tied_actor_def actor_eval)
  have v3: "value_of tied_actor ([0] @ [3]) = 1 / 2" by (simp add: tied_actor_def actor_eval)
  have r0: "fst (get_proposed_action tied_actor 0 True [0] [1, 2, 3]) = Inr 1"
    by (simp add: tied_actor_def actor_eval)
  have r1: "fst (get_proposed_action tied_actor 1 True [0] [1, 2, 3]) = Inr 2"
    by (simp add: tied_actor_def actor_eval)
  have "\<forall>rnd. fst (get_proposed_action tied_actor rnd True [0] [1, 2, 3]) \<noteq> Inr 3"
  proof
    fix rnd
    have "\<forall>x\<in>set [1, 2, 3 :: nat]. \<forall>b\<in>set [1, 2, 3 :: nat].
         value_of tied_actor ([0] @ [x]) < value_of tied_actor ([0] @ [b]) \<longrightarrow>
         fst (get_proposed_action tied_actor rnd True [0] [1, 2, 3]) \<noteq> Inr x"
      using get_proposed_action_argmax[OF ne, of tied_actor rnd "[0]"] by blast
    then have "value_of tied_actor ([0] @ [3]) < value_of tied_actor ([0] @ [1]) \<longrightarrow>
         fst (get_proposed_action tied_actor rnd True [0] [1, 2, 3]) \<noteq> Inr 3"
      by simp
    then show "fst (get_proposed_action tied_actor rnd True [0] [1, 2, 3]) \<noteq> Inr 3"
      unfolding v1 v3 by simp
  qed
  with ne v1 v2 v3 r0 r1 show ?thesis by blast
qed

text \<open>
  Claim C9. With an empty sequence of actions \<open>get_proposed_action\<close> raises
  (IndexError, from \<open>random.choice\<close>) for both values of \<open>do_argmax\<close> and every
  state, and returns no action.
\<close>

theorem get_proposed_action_empty_raises:
  "get_proposed_action self rnd do_argmax st [] = (Inl IndexError, self)"
  by (simp add: get_proposed_action_def choice_def)

section \<open>Properties of the Gambler\<close>

lemmas gambler_eval = Gambler_init_def Gambler_produce_initial_state_def Gambler_update_def
  Gambler_action_is_legal_def Gambler_get_child_state_def Gambler_get_legal_actions_def
  Gambler_is_current_state_final_state_def Gambler_is_current_state_failed_state_def Let_def

lemma one_hot_update:
  assumes "k < n"
  shows "(replicate n (0::int))[k := 1] = replicate k 0 @ 1 # replicate (n - Suc k) 0"
  using assms by (simp add: upd_conv_take_nth_drop min_def)

lemma tuple_index_one_hot:
  assumes "k < n"
  shows "tuple_index ((replicate n (0::int))[k := 1]) 1 = Inr (int k)"
  unfolding one_hot_update[OF assms] tuple_index_def
  by (simp add: takeWhile_append2 takeWhile_tail)

lemma Gambler_get_current_state_index:
  assumes "0 \<le> state self" "state self \<le> max_coins self"
    and "Gambler_get_current_state self = Inr oh"
  shows "tuple_index oh 1 = Inr (state self)"
proof -
  have lt: "nat (state self) < nat (max_coins self + 1)" using assms(1,2) by simp
  have "oh = (replicate (nat (max_coins self + 1)) 0)[nat (state self) := 1]"
    using assms by (simp add: Gambler_get_current_state_def list_setitem_def Let_def split: if_splits)
  then show ?thesis using tuple_index_one_hot[OF lt] assms(1) by simp
qed

lemma legal_actions_current:
  "Gambler_get_legal_actions self None =
     Inr (min_bet self # [min_bet self + 1 .. min (state self) (max_coins self - state self)])"
  by (simp add: Gambler_get_legal_actions_def Let_def)

lemma upto_from_one: "(1::int) \<le> m \<Longrightarrow> 1 # [1 + 1 .. m] = [1 .. m]"
  by (simp add: upto_rec1[of 1 m])

lemma Gambler_update_legal:
  assumes "Gambler_action_is_legal self a"
  shows "fst (Gambler_update self u a) = Inr (Gambler_get_child_state self u a - state self)"
    and "state (snd (Gambler_update self u a)) = Gambler_get_child_state self u a"
    and "gambler.current_step (snd (Gambler_update self u a)) = gambler.current_step self + 1"
    and "history (snd (Gambler_update self u a)) = history self @ [Gambler_get_child_state self u a]"
  using assms
  by (simp_all add: Gambler_update_def Gambler_action_is_legal_def Gambler_get_child_state_def Let_def)

lemma Gambler_update_illegal:
  assumes "\<not> Gambler_action_is_legal self a"
  shows "Gambler_update self u a =
           (Inl IllegalAction, self\<lparr>gambler.current_step := gambler.current_step self + 1\<rparr>)"
  using assms by (simp add: Gambler_update_def Gambler_action_is_legal_def Let_def)

subsection \<open>Legal wagers\<close>

text \<open>
  The claim C4 as stated fails at the boundary: after the last coin is lost the coin
  count is 0 and \<open>get_legal_actions\<close> returns \<open>[1]\<close>, while the integers from 1
  to \<open>min(0, 100 - 0)\<close> are none and \<open>action_is_legal\<close> rejects the wager 1.
\<close>

theorem Gambler_legal_actions_boundary:
  "state (snd (Gambler_update (Gambler_init (4 / 10) 300 1) (1 / 2) 1)) = 0
   \<and> max_coins (snd (Gambler_update (Gambler_init (4 / 10) 300 1) (1 / 2) 1)) = 100
   \<and> Gambler_get_legal_actions (snd (Gambler_update (Gambler_init (4 / 10) 300 1) (1 / 2) 1)) None
       = Inr [1]
   \<and> [1 .. min 0 (100 - 0)] = ([] :: int list)
   \<and> \<not> Gambler_action_is_legal (snd (Gambler_update (Gambler_init (4 / 10) 300 1) (1 / 2) 1)) 1"
  by (simp add: gambler_eval)

text \<open>
  Claim C4, amended. With \<open>max_coins = 100\<close> and \<open>min_bet = 1\<close>: for a coin count
  \<open>s\<close> from 1 to 99 \<open>get_legal_actions\<close> returns exactly the list of the integers
  from 1 to \<open>min(s, 100 - s)\<close>; at \<open>s = 0\<close> and \<open>s = 100\<close> it returns
  \<open>[1]\<close>; given the one-hot encoding of the current state it returns the same list
  as without an argument; and for every \<open>s\<close> from 0 to 100 \<open>action_is_legal\<close>
  accepts exactly the integers from 1 to \<open>min(s, 100 - s)\<close>.
\<close>

theorem Gambler_legal_actions_range:
  assumes "max_coins self = 100" "min_bet self = 1" "0 \<le> state self" "state self \<le> 100"
  shows "(1 \<le> state self \<and> state self \<le> 99 \<longrightarrow>
            Gambler_get_legal_actions self None = Inr [1 .. min (state self) (100 - state self)])
      \<and> (state self = 0 \<or> state self = 100 \<longrightarrow> Gambler_get_legal_actions self None = Inr [1])
      \<and> (\<forall>oh. Gambler_get_current_state self = Inr oh \<longrightarrow>
            Gambler_get_legal_actions self (Some oh) = Gambler_get_legal_actions self None)
      \<and> (\<forall>a. Gambler_action_is_legal self a \<longleftrightarrow> a \<in> {1 .. min (state self) (100 - state self)})"
proof (intro conjI impI allI)
  assume "1 \<le> state self \<and> state self \<le> 99"
  then have "1 \<le> min (state self) (100 - state self)" by simp
  from upto_from_one[OF this]
  show "Gambler_get_legal_actions self None = Inr [1 .. min (state self) (100 - state self)]"
    using assms by (simp add: legal_actions_current)
next
  assume "state self = 0 \<or> state self = 100"
  then have "min (state self) (100 - state self) = 0" by auto
  then show "Gambler_get_legal_actions self None = Inr [1]"
    using assms by (simp add: legal_actions_current)
next
  fix oh assume "Gambler_get_current_state self = Inr oh"
  from Gambler_get_current_state_index[OF _ _ this] assms
  have "tuple_index oh 1 = Inr (state self)" by simp
  then show "Gambler_get_legal_actions self (Some oh) = Gambler_get_legal_actions self None"
    by (simp add: Gambler_get_legal_actions_def)
next
  fix a
  show "Gambler_action_is_legal self a \<longleftrightarrow> a \<in> {1 .. min (state self) (100 - state self)}"
    using assms by (simp add: Gambler_action_is_legal_def Let_def)
qed

theorem Gambler_legal_actions_range_witness:
  "max_coins (Gambler_init (4 / 10) 300 50) = 100 \<and> min_bet (Gambler_init (4 / 10) 300 50) = 1
   \<and> 0 \<le> state (Gambler_init (4 / 10) 300 50) \<and> state (Gambler_init (4 / 10) 300 50) \<le> 100
   \<and> 1 \<le> state (Gambler_init (4 / 10) 300 50) \<and> state (Gambler_init (4 / 10) 300 50) \<le> 99
   \<and> Gambler_get_legal_actions (Gambler_init (4 / 10) 300 50) None = Inr [1 .. 50]
   \<and> Gambler_get_legal_actions (Gambler_init (4 / 10) 300 1) None = Inr [1]
   \<and> \<not> Gambler_action_is_legal (Gambler_init (4 / 10) 300 50) 0
   \<and> \<not> Gambler_action_is_legal (Gambler_init (4 / 10) 300 50) 51
   \<and> Gambler_action_is_legal (Gambler_init (4 / 10) 300 50) 50"
proof -
  let ?g = "Gambler_init (4 / 10) 300 50"
  let ?h = "Gambler_init (4 / 10) 300 1"
  have g: "max_coins ?g = 100" "min_bet ?g = 1" "0 \<le> state ?g" "state ?g \<le> 100"
    by (simp_all add: gambler_eval)
  have h: "max_coins ?h = 100" "min_bet ?h = 1" "0 \<le> state ?h" "state ?h \<le> 100"
    by (simp_all add: gambler_eval)
  have sg: "state ?g = 50" and sh: "state ?h = 1" by (simp_all add: gambler_eval)
  have "Gambler_get_legal_actions ?g None = Inr [1 .. 50]"
    using Gambler_legal_actions_range[OF g] unfolding sg by simp
  moreover have "Gambler_get_legal_actions ?h None = Inr [1]"
    using Gambler_legal_actions_range[OF h] unfolding sh by simp
  moreover have "\<forall>a. Gambler_action_is_legal ?g a \<longleftrightarrow> a \<in> {1 .. 50}"
    using Gambler_legal_actions_range[OF g] unfolding sg by simp
  ultimately show ?thesis using g sg by simp
qed

subsection \<open>One step of the game\<close>

text \<open>
  Claim C8. For a legal wager \<open>a\<close>, \<open>update\<close> takes one draw \<open>u\<close> of
  \<open>random()\<close>: when \<open>u < win_prob\<close> the coin count becomes \<open>c + a\<close> and the
  reward is \<open>a\<close>, otherwise the coin count becomes \<open>c - a\<close> and the reward is
  \<open>- a\<close>; the reward is always the new coin count minus the old one; and for a
  \<open>win_prob\<close> between 0 and 1 the winning draws are exactly the interval from 0 to
  \<open>win_prob\<close>, whose share of the unit interval is \<open>win_prob\<close>.
\<close>

theorem Gambler_update_reward:
  assumes "Gambler_action_is_legal self a" "min_bet self = 1"
  shows "(u < win_prob self \<longrightarrow>
            state (snd (Gambler_update self u a)) = state self + a \<and>
            fst (Gambler_update self u a) = Inr a)
      \<and> (\<not> u < win_prob self \<longrightarrow>
            state (snd (Gambler_update self u a)) = state self - a \<and>
            fst (Gambler_update self u a) = Inr (- a))
      \<and> fst (Gambler_update self u a) = Inr (state (snd (Gambler_update self u a)) - state self)
      \<and> (0 \<le> win_prob self \<and> win_prob self \<le> 1 \<longrightarrow>
            {v. 0 \<le> v \<and> v < 1 \<and> state (snd (Gambler_update self v a)) = state self + a}
              = {0 ..< win_prob self})"
proof -
  have pos: "0 < a" using assms by (simp add: Gambler_action_is_legal_def Let_def)
  have st: "\<And>v. state (snd (Gambler_update self v a)) =
               (if v < win_prob self then state self + a else state self - a)"
    using Gambler_update_legal(2)[OF assms(1)] by (simp add: Gambler_get_child_state_def)
  have rw: "\<And>v. fst (Gambler_update self v a) =
               Inr (if v < win_prob self then a else - a)"
    using Gambler_update_legal(1)[OF assms(1)] by (simp add: Gambler_get_child_state_def)
  have "0 \<le> win_prob self \<and> win_prob self \<le> 1 \<longrightarrow>
            {v. 0 \<le> v \<and> v < 1 \<and> state (snd (Gambler_update self v a)) = state self + a}
              = {0 ..< win_prob self}"
    using pos by (auto simp: st)
  then show ?thesis by (simp add: st rw)
qed

theorem Gambler_update_reward_witness:
  "Gambler_action_is_legal (Gambler_init (4 / 10) 300 50) 20
   \<and> min_bet (Gambler_init (4 / 10) 300 50) = 1
   \<and> (3 / 10 :: real) < win_prob (Gambler_init (4 / 10) 300 50)
   \<and> \<not> (7 / 10 :: real) < win_prob (Gambler_init (4 / 10) 300 50)
   \<and> state (snd (Gambler_update (Gambler_init (4 / 10) 300 50) (3 / 10) 20)) = 70
   \<and> fst (Gambler_update (Gambler_init (4 / 10) 300 50) (3 / 10) 20) = Inr 20
   \<and> state (snd (Gambler_update (Gambler_init (4 / 10) 300 50) (7 / 10) 20)) = 30
   \<and> fst (Gambler_update (Gambler_init (4 / 10) 300 50) (7 / 10) 20) = Inr (- 20)"
proof -
  let ?g = "Gambler_init (4 / 10) 300 50"
  have l: "Gambler_action_is_legal ?g 20" and m: "min_bet ?g = 1" and s: "state ?g = 50"
    and w: "win_prob ?g = 4 / 10"
    by (simp_all add: gambler_eval)
  show ?thesis
    using Gambler_update_reward[OF l m, of "3 / 10"] Gambler_update_reward[OF l m, of "7 / 10"] l m unfolding s w by simp
qed

text \<open>
  Claim C10. For an action that is not legal in the current state \<open>update\<close> raises,
  the coin count, the failure flag and the history are as before the call, and
  \<open>current_step\<close> is one more than before: the counter is advanced before the
  legality check.
\<close>

theorem Gambler_update_illegal_action:
  assumes "\<not> Gambler_action_is_legal self a"
  shows "fst (Gambler_update self u a) = Inl IllegalAction
      \<and> state (snd (Gambler_update self u a)) = state self
      \<and> failed (snd (Gambler_update self u a)) = failed self
      \<and> history (snd (Gambler_update self u a)) = history self
      \<and> gambler.current_step (snd (Gambler_update self u a)) = gambler.current_step self + 1
      \<and> snd (Gambler_update self u a) = self\<lparr>gambler.current_step := gambler.current_step self + 1\<rparr>"
  by (simp add: Gambler_update_illegal[OF assms])

theorem Gambler_update_illegal_action_witness:
  "\<not> Gambler_action_is_legal (Gambler_init (4 / 10) 300 2) 3
   \<and> fst (Gambler_update (Gambler_init (4 / 10) 300 2) (1 / 2) 3) = Inl IllegalAction
   \<and> state (snd (Gambler_update (Gambler_init (4 / 10) 300 2) (1 / 2) 3)) = 2
   \<and> failed (snd (Gambler_update (Gambler_init (4 / 10) 300 2) (1 / 2) 3)) = False
   \<and> history (snd (Gambler_update (Gambler_init (4 / 10) 300 2) (1 / 2) 3)) = [2]
   \<and> gambler.current_step (Gambler_init (4 / 10) 300 2) = 0
   \<and> gambler.current_step (snd (Gambler_update (Gambler_init (4 / 10) 300 2) (1 / 2) 3)) = 1"
proof -
  let ?g = "Gambler_init (4 / 10) 300 2"
  have l: "\<not> Gambler_action_is_legal ?g 3" by (simp add: gambler_eval)
  have f: "state ?g = 2" "failed ?g = False" "history ?g = [2]" "gambler.current_step ?g = 0"
    by (simp_all add: gambler_eval)
  show ?thesis using Gambler_update_illegal_action[OF l, of "1 / 2"] l f by simp
qed

section \<open>Properties of PoleBalancing\<close>

lemmas pole_eval = PoleBalancing_init_def PoleBalancing_produce_initial_state_def
  PoleBalancing_get_child_state_def bang_bang_force_def update_angle_acc_def update_x_acc_def Let_def

lemma bang_bang_force_eq:
  "bang_bang_force self action = (if action then force self else - force self)"
  by (simp add: bang_bang_force_def)

lemma cancel_length:
  fixes F m s d L :: real
  assumes "L \<noteq> 0"
  shows "m * L * (- ((- F / s) / (L * d))) = F * (m / s / d)"
  using assms by simp

lemma rest_accelerations:
  fixes F m M L :: real
  assumes "0 < m" "0 < M" "0 < L" "F \<noteq> 0"
  defines "alpha \<equiv> (- F / (m + M)) / (L * (4 / 3 - m / (m + M)))"
  shows "alpha \<noteq> 0" and "(F + m * L * (- alpha)) / (m + M) \<noteq> 0"
proof -
  have s: "0 < m + M" using assms by simp
  have "m / (m + M) < 1" using assms by simp
  then have d: "0 < 4 / 3 - m / (m + M)" by linarith
  have Ld: "0 < L * (4 / 3 - m / (m + M))" using assms(3) d by simp
  have n: "- F / (m + M) \<noteq> 0" using s assms(4) by simp
  have "L * (4 / 3 - m / (m + M)) \<noteq> 0" using Ld by (metis less_irrefl)
  with n show "alpha \<noteq> 0" unfolding alpha_def by (metis divide_eq_0_iff)
  have "m * L * (- alpha) = F * (m / (m + M) / (4 / 3 - m / (m + M)))"
    unfolding alpha_def using assms(3) by (intro cancel_length) simp
  then have "F + m * L * (- alpha) = F * (1 + m / (m + M) / (4 / 3 - m / (m + M)))"
    by (simp add: algebra_simps)
  moreover have "0 < 1 + m / (m + M) / (4 / 3 - m / (m + M))"
    using assms(1) s d by (simp add: add_pos_nonneg)
  ultimately have "F + m * L * (- alpha) \<noteq> 0" using assms(4) by simp
  then show "(F + m * L * (- alpha)) / (m + M) \<noteq> 0" using s by simp
qed

lemma angle_acc_at_rest:
  assumes "angle self = 0" "angle_vel self = 0"
  shows "update_angle_acc self F =
     (- F / (mass_p self + mass_c self)) /
     (length_pole self * (4 / 3 - mass_p self / (mass_p self + mass_c self)))"
  using assms by (simp add: update_angle_acc_def Let_def)

lemma x_acc_at_rest:
  assumes "angle self = 0" "angle_vel self = 0"
  shows "update_x_acc self F alpha =
     (F + mass_p self * length_pole self * (- alpha)) / (mass_p self + mass_c self)"
  using assms by (simp add: update_x_acc_def Let_def)

lemma PoleBalancing_get_child_state_step:
  "PoleBalancing_get_child_state (self\<lparr>current_step := n\<rparr>) a = PoleBalancing_get_child_state self a"
  by (simp add: PoleBalancing_get_child_state_def bang_bang_force_def update_angle_acc_def
      update_x_acc_def)

lemma PoleBalancing_get_child_state_eq:
  "PoleBalancing_get_child_state self a =
     (x_pos self + tau self * x_vel self,
      x_vel self + tau self *
        update_x_acc self (bang_bang_force self a) (update_angle_acc self (bang_bang_force self a)),
      angle self + tau self * angle_vel self,
      angle_vel self + tau self * update_angle_acc self (bang_bang_force self a))"
  by (simp add: PoleBalancing_get_child_state_def Let_def)

lemma PoleBalancing_update_fields:
  assumes "PoleBalancing_get_child_state self a = (nx, nv, na, nav)"
  shows "x_pos (snd (PoleBalancing_update self a)) = nx"
    and "x_vel (snd (PoleBalancing_update self a)) = nv"
    and "angle (snd (PoleBalancing_update self a)) = na"
    and "angle_vel (snd (PoleBalancing_update self a)) = nav"
    and "current_step (snd (PoleBalancing_update self a)) = current_step self + 1"
    and "balancing_failed (snd (PoleBalancing_update self a)) \<longleftrightarrow>
           balancing_failed self \<or> \<bar>na\<bar> \<ge> max_angle self"
    and "cart_exited (snd (PoleBalancing_update self a)) \<longleftrightarrow>
           cart_exited self \<or> \<bar>nx\<bar> \<ge> max_x_pos self"
    and "max_angle (snd (PoleBalancing_update self a)) = max_angle self"
    and "max_x_pos (snd (PoleBalancing_update self a)) = max_x_pos self"
    and "steps (snd (PoleBalancing_update self a)) = steps self"
    and "tau (snd (PoleBalancing_update self a)) = tau self"
    and "historic_angle (snd (PoleBalancing_update self a)) = historic_angle self @ [na]"
  using assms
  by (simp_all add: PoleBalancing_update_def PoleBalancing_get_child_state_step Let_def)

lemma PoleBalancing_update_constants:
  "max_angle (snd (PoleBalancing_update self a)) = max_angle self"
  "max_x_pos (snd (PoleBalancing_update self a)) = max_x_pos self"
  "steps (snd (PoleBalancing_update self a)) = steps self"
  "tau (snd (PoleBalancing_update self a)) = tau self"
  using PoleBalancing_update_fields[OF PoleBalancing_get_child_state_eq, of self a] by simp_all

lemma PoleBalancing_update_step:
  "current_step (snd (PoleBalancing_update self a)) = current_step self + 1"
  using PoleBalancing_update_fields[OF PoleBalancing_get_child_state_eq, of self a] by simp

lemma PoleBalancing_update_position:
  "angle (snd (PoleBalancing_update self a)) = angle self + tau self * angle_vel self"
  "x_pos (snd (PoleBalancing_update self a)) = x_pos self + tau self * x_vel self"
  using PoleBalancing_update_fields[OF PoleBalancing_get_child_state_eq, of self a] by simp_all

lemma PoleBalancing_update_velocity:
  "angle_vel (snd (PoleBalancing_update self a)) =
     angle_vel self + tau self * update_angle_acc self (bang_bang_force self a)"
  using PoleBalancing_update_fields[OF PoleBalancing_get_child_state_eq, of self a] by simp

lemma PoleBalancing_update_balancing_failed:
  "balancing_failed (snd (PoleBalancing_update self a)) \<longleftrightarrow>
     balancing_failed self \<or> \<bar>angle (snd (PoleBalancing_update self a))\<bar> \<ge> max_angle self"
  using PoleBalancing_update_fields[OF PoleBalancing_get_child_state_eq, of self a] by simp

lemma PoleBalancing_update_cart_exited:
  "cart_exited (snd (PoleBalancing_update self a)) \<longleftrightarrow>
     cart_exited self \<or> \<bar>x_pos (snd (PoleBalancing_update self a))\<bar> \<ge> max_x_pos self"
  using PoleBalancing_update_fields[OF PoleBalancing_get_child_state_eq, of self a] by simp

text \<open>
  Claim C7. For every state and either action, \<open>get_child_state\<close> makes one
  forward Euler step of size \<open>tau\<close>: the new position and angle use the old
  velocities, the new velocities use the accelerations computed from the old state;
  the force is \<open>force\<close> for \<open>True\<close> and \<open>- force\<close> for \<open>False\<close>; the
  angular acceleration and the cart's acceleration are the closed forms of the pole on a
  cart (gravity, force, the \<open>angle_vel\<close> squared term, the masses); and from the
  state that is zero in all four variables, with positive masses and length and a nonzero
  force, both accelerations are nonzero for either action.
\<close>

theorem PoleBalancing_get_child_state_euler:
  "PoleBalancing_get_child_state self action =
     (x_pos self + tau self * x_vel self,
      x_vel self + tau self *
        update_x_acc self (bang_bang_force self action)
          (update_angle_acc self (bang_bang_force self action)),
      angle self + tau self * angle_vel self,
      angle_vel self + tau self * update_angle_acc self (bang_bang_force self action))
   \<and> bang_bang_force self action = (if action then force self else - force self)
   \<and> update_angle_acc self F =
       (gravity self * sin (angle self) +
        cos (angle self) * (- F - mass_p self * length_pole self * (angle_vel self)\<^sup>2 * sin (angle self))
          / (mass_p self + mass_c self))
       / (length_pole self *
           (4 / 3 - mass_p self * (cos (angle self))\<^sup>2 / (mass_p self + mass_c self)))
   \<and> update_x_acc self F alpha =
       (F + mass_p self * length_pole self *
          ((angle_vel self)\<^sup>2 * sin (angle self) - alpha * cos (angle self)))
       / (mass_p self + mass_c self)
   \<and> (angle self = 0 \<and> angle_vel self = 0 \<and> x_pos self = 0 \<and> x_vel self = 0 \<and>
      0 < mass_p self \<and> 0 < mass_c self \<and> 0 < length_pole self \<and> force self \<noteq> 0 \<longrightarrow>
        update_angle_acc self (bang_bang_force self action) \<noteq> 0 \<and>
        update_x_acc self (bang_bang_force self action)
          (update_angle_acc self (bang_bang_force self action)) \<noteq> 0)"
proof (intro conjI impI)
  show "PoleBalancing_get_child_state self action =
     (x_pos self + tau self * x_vel self,
      x_vel self + tau self *
        update_x_acc self (bang_bang_force self action)
          (update_angle_acc self (bang_bang_force self action)),
      angle self + tau self * angle_vel self,
      angle_vel self + tau self * update_angle_acc self (bang_bang_force self action))"
    by (rule PoleBalancing_get_child_state_eq)
  show "bang_bang_force self action = (if action then force self else - force self)"
    by (rule bang_bang_force_eq)
  show "update_angle_acc self F =
       (gravity self * sin (angle self) +
        cos (angle self) * (- F - mass_p self * length_pole self * (angle_vel self)\<^sup>2 * sin (angle self))
          / (mass_p self + mass_c self))
       / (length_pole self *
           (4 / 3 - mass_p self * (cos (angle self))\<^sup>2 / (mass_p self + mass_c self)))"
    by (simp add: update_angle_acc_def Let_def)
  show "update_x_acc self F alpha =
       (F + mass_p self * length_pole self *
          ((angle_vel self)\<^sup>2 * sin (angle self) - alpha * cos (angle self)))
       / (mass_p self + mass_c self)"
    by (simp add: update_x_acc_def Let_def)
next
  assume h: "angle self = 0 \<and> angle_vel self = 0 \<and> x_pos self = 0 \<and> x_vel self = 0 \<and>
      0 < mass_p self \<and> 0 < mass_c self \<and> 0 < length_pole self \<and> force self \<noteq> 0"
  then have F: "bang_bang_force self action \<noteq> 0" by (simp add: bang_bang_force_eq)
  from h have z: "angle self = 0" "angle_vel self = 0" by simp_all
  from h have c: "0 < mass_p self" "0 < mass_c self" "0 < length_pole self" by simp_all
  show "update_angle_acc self (bang_bang_force self action) \<noteq> 0"
    unfolding angle_acc_at_rest[OF z] by (rule rest_accelerations(1)[OF c F])
next
  assume h: "angle self = 0 \<and> angle_vel self = 0 \<and> x_pos self = 0 \<and> x_vel self = 0 \<and>
      0 < mass_p self \<and> 0 < mass_c self \<and> 0 < length_pole self \<and> force self \<noteq> 0"
  then have F: "bang_bang_force self action \<noteq> 0" by (simp add: bang_bang_force_eq)
  from h have z: "angle self = 0" "angle_vel self = 0" by simp_all
  from h have c: "0 < mass_p self" "0 < mass_c self" "0 < length_pole self" by simp_all
  show "update_x_acc self (bang_bang_force self action)
          (update_angle_acc self (bang_bang_force self action)) \<noteq> 0"
    unfolding x_acc_at_rest[OF z] angle_acc_at_rest[OF z] by (rule rest_accelerations(2)[OF c F])
qed

theorem PoleBalancing_get_child_state_euler_witness:
  "angle resting_pole = 0 \<and> angle_vel resting_pole = 0 \<and> x_pos resting_pole = 0 \<and>
   x_vel resting_pole = 0 \<and> 0 < mass_p resting_pole \<and> 0 < mass_c resting_pole \<and>
   0 < length_pole resting_pole \<and> force resting_pole \<noteq> 0
   \<and> update_angle_acc resting_pole (bang_bang_force resting_pole True) = - 600 / 41
   \<and> update_x_acc resting_pole (bang_bang_force resting_pole True)
        (update_angle_acc resting_pole (bang_bang_force resting_pole True)) = 400 / 41
   \<and> update_angle_acc resting_pole (bang_bang_force resting_pole False) = 600 / 41
   \<and> update_x_acc resting_pole (bang_bang_force resting_pole False)
        (update_angle_acc resting_pole (bang_bang_force resting_pole False)) = - 400 / 41
   \<and> PoleBalancing_get_child_state resting_pole True = (0, 8 / 41, 0, - 12 / 41)"
proof -
  have a1: "update_angle_acc resting_pole (bang_bang_force resting_pole True) = - 600 / 41"
    by (simp add: resting_pole_def pole_eval)
  have a2: "update_angle_acc resting_pole (bang_bang_force resting_pole False) = 600 / 41"
    by (simp add: resting_pole_def pole_eval)
  have x1: "update_x_acc resting_pole (bang_bang_force resting_pole True) (- 600 / 41) = 400 / 41"
    by (simp add: resting_pole_def pole_eval)
  have x2: "update_x_acc resting_pole (bang_bang_force resting_pole False) (600 / 41) = - 400 / 41"
    by (simp add: resting_pole_def pole_eval)
  have f: "angle resting_pole = 0" "angle_vel resting_pole = 0" "x_pos resting_pole = 0"
    "x_vel resting_pole = 0" "0 < mass_p resting_pole" "0 < mass_c resting_pole"
    "0 < length_pole resting_pole" "force resting_pole \<noteq> 0" "tau resting_pole = 2 / 100"
    by (simp_all add: resting_pole_def pole_eval)
  have x1': "update_x_acc resting_pole (bang_bang_force resting_pole True)
        (update_angle_acc resting_pole (bang_bang_force resting_pole True)) = 400 / 41"
    unfolding a1 by (rule x1)
  have x2': "update_x_acc resting_pole (bang_bang_force resting_pole False)
        (update_angle_acc resting_pole (bang_bang_force resting_pole False)) = - 400 / 41"
    unfolding a2 by (rule x2)
  have gcs: "PoleBalancing_get_child_state resting_pole True = (0, 8 / 41, 0, - 12 / 41)"
    using PoleBalancing_get_child_state_euler[of resting_pole True] unfolding a1 x1 f by simp
  from f(1-8) a1 x1' a2 x2' gcs show ?thesis by blast
qed

section \<open>Episodes: failure and success\<close>

lemma Gambler_update_constants:
  "max_coins (snd (Gambler_update self u a)) = max_coins self"
  "min_bet (snd (Gambler_update self u a)) = min_bet self"
  "max_steps (snd (Gambler_update self u a)) = max_steps self"
  "win_prob (snd (Gambler_update self u a)) = win_prob self"
  by (simp_all add: Gambler_update_def Let_def)

lemma Gambler_update_failed: "failed self \<Longrightarrow> failed (snd (Gambler_update self u a))"
  by (simp add: Gambler_update_def Let_def)

lemma Gambler_update_broke:
  assumes "state self = 0" "min_bet self = 1"
  shows "state (snd (Gambler_update self u a)) = 0"
proof -
  have "\<not> Gambler_action_is_legal self a"
    using assms by (auto simp: Gambler_action_is_legal_def Let_def)
  from Gambler_update_illegal[OF this] show ?thesis using assms(1) by simp
qed

lemma Gambler_run_append:
  "Gambler_run self (xs @ ys) = Gambler_run (Gambler_run self xs) ys"
  by (induction self xs rule: Gambler_run.induct) simp_all

lemma Gambler_run_constants:
  "max_coins (Gambler_run self calls) = max_coins self \<and>
   min_bet (Gambler_run self calls) = min_bet self"
  by (induction self calls rule: Gambler_run.induct) (simp_all add: Gambler_update_constants)

lemma Gambler_run_failed: "failed self \<Longrightarrow> failed (Gambler_run self calls)"
  by (induction self calls rule: Gambler_run.induct) (simp_all add: Gambler_update_failed)

lemma Gambler_run_broke:
  "state self = 0 \<Longrightarrow> min_bet self = 1 \<Longrightarrow> state (Gambler_run self calls) = 0"
  by (induction self calls rule: Gambler_run.induct)
     (simp_all add: Gambler_update_broke Gambler_update_constants)

lemma Gambler_produce_initial_state_failed:
  "\<not> failed (snd (Gambler_produce_initial_state self drawn))"
  by (simp add: Gambler_produce_initial_state_def Let_def)

lemma Gambler_run_broke_prefix:
  assumes "min_bet g = 1" "k \<le> length calls" "state (Gambler_run g (take k calls)) = 0"
  shows "state (Gambler_run g calls) = 0"
proof -
  have "Gambler_run g calls = Gambler_run (Gambler_run g (take k calls)) (drop k calls)"
    using Gambler_run_append[of g "take k calls" "drop k calls"] by simp
  moreover have "min_bet (Gambler_run g (take k calls)) = 1"
    using assms(1) by (simp add: Gambler_run_constants)
  ultimately show ?thesis using Gambler_run_broke[OF assms(3)] by simp
qed

lemma PoleBalancing_run_append:
  "PoleBalancing_run self (xs @ ys) = PoleBalancing_run (PoleBalancing_run self xs) ys"
  by (induction self xs rule: PoleBalancing_run.induct) simp_all

lemma PoleBalancing_run_snoc:
  "PoleBalancing_run self (xs @ [a]) = snd (PoleBalancing_update (PoleBalancing_run self xs) a)"
  by (simp add: PoleBalancing_run_append)

lemma PoleBalancing_run_constants:
  "max_angle (PoleBalancing_run self actions) = max_angle self \<and>
   max_x_pos (PoleBalancing_run self actions) = max_x_pos self \<and>
   steps (PoleBalancing_run self actions) = steps self"
  by (induction self actions rule: PoleBalancing_run.induct)
     (simp_all add: PoleBalancing_update_constants)

lemma PoleBalancing_run_step:
  "current_step (PoleBalancing_run self actions) = current_step self + int (length actions)"
  by (induction self actions rule: PoleBalancing_run.induct)
     (simp_all add: PoleBalancing_update_step)

lemma take_snoc_Ex:
  "(\<exists>k\<in>{1..length (xs @ [a])}. P (take k (xs @ [a]))) \<longleftrightarrow>
     (\<exists>k\<in>{1..length xs}. P (take k xs)) \<or> P (xs @ [a])"
proof -
  have split: "{1..length (xs @ [a])} = insert (Suc (length xs)) {1..length xs}"
    by auto
  have "(\<exists>k\<in>{1..length xs}. P (take k (xs @ [a]))) = (\<exists>k\<in>{1..length xs}. P (take k xs))"
    by (rule bex_cong) simp_all
  then show ?thesis unfolding split by auto
qed

lemma PoleBalancing_run_balancing_failed:
  "balancing_failed (PoleBalancing_run self actions) \<longleftrightarrow>
     balancing_failed self \<or>
     (\<exists>k\<in>{1..length actions}. \<bar>angle (PoleBalancing_run self (take k actions))\<bar> \<ge> max_angle self)"
proof (induction actions rule: rev_induct)
  case Nil
  show ?case by simp
next
  case (snoc a xs)
  let ?w = "PoleBalancing_run self xs"
  let ?w' = "PoleBalancing_run self (xs @ [a])"
  have "balancing_failed ?w' \<longleftrightarrow> balancing_failed ?w \<or> \<bar>angle ?w'\<bar> \<ge> max_angle self"
    using PoleBalancing_update_balancing_failed[of ?w a]
    by (simp add: PoleBalancing_run_snoc PoleBalancing_run_constants)
  then show ?case
    unfolding take_snoc_Ex[of xs a "\<lambda>ys. \<bar>angle (PoleBalancing_run self ys)\<bar> \<ge> max_angle self"]
      snoc.IH
    by blast
qed

lemma PoleBalancing_run_cart_exited:
  "cart_exited (PoleBalancing_run self actions) \<longleftrightarrow>
     cart_exited self \<or>
     (\<exists>k\<in>{1..length actions}. \<bar>x_pos (PoleBalancing_run self (take k actions))\<bar> \<ge> max_x_pos self)"
proof (induction actions rule: rev_induct)
  case Nil
  show ?case by simp
next
  case (snoc a xs)
  let ?w = "PoleBalancing_run self xs"
  let ?w' = "PoleBalancing_run self (xs @ [a])"
  have "cart_exited ?w' \<longleftrightarrow> cart_exited ?w \<or> \<bar>x_pos ?w'\<bar> \<ge> max_x_pos self"
    using PoleBalancing_update_cart_exited[of ?w a]
    by (simp add: PoleBalancing_run_snoc PoleBalancing_run_constants)
  then show ?case
    unfolding take_snoc_Ex[of xs a "\<lambda>ys. \<bar>x_pos (PoleBalancing_run self ys)\<bar> \<ge> max_x_pos self"]
      snoc.IH
    by blast
qed

lemma PoleBalancing_produce_initial_state_fields:
  "\<not> balancing_failed (snd (PoleBalancing_produce_initial_state self drawn))"
  "\<not> cart_exited (snd (PoleBalancing_produce_initial_state self drawn))"
  "current_step (snd (PoleBalancing_produce_initial_state self drawn)) = 0"
  "steps (snd (PoleBalancing_produce_initial_state self drawn)) = steps self"
  "max_angle (snd (PoleBalancing_produce_initial_state self drawn)) = max_angle self"
  "max_x_pos (snd (PoleBalancing_produce_initial_state self drawn)) = max_x_pos self"
  by (simp_all add: PoleBalancing_produce_initial_state_def Let_def)

text \<open>
  A pole that re-enters the bounds. Started at the lower bound of the angle and pushed
  to the left twice with the default constants, the pole is out of bounds after the first
  step, which sets \<open>balancing_failed\<close>, and strictly inside the bounds after the
  second, where the flag is still set.
\<close>

lemma leaning_acceleration:
  fixes s c :: real
  assumes "- 1 \<le> s" "s < 0" "0 < c" "c \<le> 1"
  defines "A \<equiv> (- 98 / 10 * s + c * (10 - 1 / 10 * (1 / 2) * 0\<^sup>2 * s) / (1 / 10 + 1))
                 / (1 / 2 * (4 / 3 - 1 / 10 * c\<^sup>2 / (1 / 10 + 1)))"
  shows "0 < A" and "A < 32"
proof -
  let ?N = "- 98 / 10 * s + c * (10 - 1 / 10 * (1 / 2) * 0\<^sup>2 * s) / (1 / 10 + 1)"
  let ?D = "1 / 2 * (4 / 3 - 1 / 10 * c\<^sup>2 / (1 / 10 + 1))"
  have c2: "c\<^sup>2 \<le> 1" using assms(3,4) by (simp add: power_le_one)
  have N: "?N = - 98 / 10 * s + c * (100 / 11)" by simp
  have "0 < - 98 / 10 * s" using assms(2) by simp
  moreover have "0 < c * (100 / 11)" using assms(3) by simp
  ultimately have Npos: "0 < ?N" unfolding N by simp
  have "- 98 / 10 * s \<le> 98 / 10" using assms(1) by simp
  moreover have "c * (100 / 11) \<le> 100 / 11" using assms(4) by simp
  ultimately have Nup: "?N < 19" unfolding N by simp
  have D: "?D = 2 / 3 - c\<^sup>2 / 22" by simp
  have Dlow: "6 / 10 < ?D" unfolding D using c2 by simp
  then have Dpos: "0 < ?D" by simp
  show "0 < A" unfolding A_def using Npos Dpos by (rule divide_pos_pos)
  have "?N / ?D < 19 / ?D" using Nup Dpos by (rule divide_strict_right_mono)
  also have "19 / ?D \<le> 19 / (6 / 10)" using Dlow by (intro divide_left_mono) simp_all
  also have "\<dots> < 32" by simp
  finally show "A < 32" unfolding A_def .
qed

lemma sin_cos_lean:
  "- 1 \<le> sin (- 21 / 100 :: real)" "sin (- 21 / 100 :: real) < 0"
  "0 < cos (- 21 / 100 :: real)" "cos (- 21 / 100 :: real) \<le> 1"
proof -
  have p: "(21 / 100 :: real) < pi" using pi_ge_two by simp
  have "0 < sin (21 / 100 :: real)" using p by (intro sin_gt_zero) simp_all
  then show "sin (- 21 / 100 :: real) < 0" using sin_minus[of "21 / 100 :: real"] by simp
  have "0 < cos (21 / 100 :: real)" using pi_ge_two by (intro cos_gt_zero_pi) simp_all
  then show "0 < cos (- 21 / 100 :: real)" using cos_minus[of "21 / 100 :: real"] by simp
qed simp_all

lemma edge_pole_fields:
  "angle edge_pole = - 21 / 100" "angle_vel edge_pole = 0" "tau edge_pole = 2 / 100"
  "max_angle edge_pole = 21 / 100" "length_pole edge_pole = 1 / 2" "mass_p edge_pole = 1 / 10"
  "mass_c edge_pole = 1" "force edge_pole = 10" "gravity edge_pole = - 98 / 10"
  "\<not> balancing_failed edge_pole"
  by (simp_all add: edge_pole_def PoleBalancing_init_def PoleBalancing_produce_initial_state_def
      Let_def)

lemma edge_pole_acceleration:
  "0 < update_angle_acc edge_pole (bang_bang_force edge_pole False)"
  "update_angle_acc edge_pole (bang_bang_force edge_pole False) < 32"
  unfolding update_angle_acc_def bang_bang_force_def Let_def edge_pole_fields
  using leaning_acceleration[OF sin_cos_lean] by simp_all

lemma edge_pole_reentry:
  "\<bar>angle (PoleBalancing_run edge_pole [False])\<bar> \<ge> max_angle edge_pole
   \<and> balancing_failed (PoleBalancing_run edge_pole [False])
   \<and> \<bar>angle (PoleBalancing_run edge_pole [False, False])\<bar> < max_angle edge_pole
   \<and> balancing_failed (PoleBalancing_run edge_pole [False, False])"
proof -
  let ?w1 = "snd (PoleBalancing_update edge_pole False)"
  let ?w2 = "snd (PoleBalancing_update ?w1 False)"
  let ?A = "update_angle_acc edge_pole (bang_bang_force edge_pole False)"
  have a1: "angle ?w1 = - 21 / 100"
    by (simp add: PoleBalancing_update_position edge_pole_fields)
  have v1: "angle_vel ?w1 = 2 / 100 * ?A"
    by (simp add: PoleBalancing_update_velocity edge_pole_fields)
  have a2: "angle ?w2 = - 21 / 100 + 2 / 100 * (2 / 100 * ?A)"
    by (simp add: PoleBalancing_update_position[of ?w1] a1 v1
        PoleBalancing_update_constants edge_pole_fields)
  have b1: "balancing_failed ?w1"
    by (simp add: PoleBalancing_update_balancing_failed a1 edge_pole_fields)
  then have b2: "balancing_failed ?w2"
    by (simp add: PoleBalancing_update_balancing_failed)
  have "\<bar>angle ?w2\<bar> < 21 / 100"
    unfolding a2 using edge_pole_acceleration by (simp add: abs_less_iff)
  with a1 b1 b2 show ?thesis by (simp add: edge_pole_fields)
qed

text \<open>
  Claim C6. In both worlds the failure flags are never cleared by \<open>update\<close>: a set
  flag is set after one more call and after any sequence of calls, whatever the wagers,
  draws and actions and whatever the angle and the position become; only
  \<open>produce_initial_state\<close> clears them.
\<close>

theorem failed_state_monotone:
  "(failed self \<longrightarrow> failed (snd (Gambler_update self u a)))
   \<and> (Gambler_is_current_state_failed_state self \<longrightarrow>
        Gambler_is_current_state_failed_state (Gambler_run self calls))
   \<and> \<not> Gambler_is_current_state_failed_state (snd (Gambler_produce_initial_state self drawn))
   \<and> (balancing_failed w \<longrightarrow> balancing_failed (snd (PoleBalancing_update w action)))
   \<and> (cart_exited w \<longrightarrow> cart_exited (snd (PoleBalancing_update w action)))
   \<and> (balancing_failed w \<longrightarrow> balancing_failed (PoleBalancing_run w actions))
   \<and> (cart_exited w \<longrightarrow> cart_exited (PoleBalancing_run w actions))
   \<and> (PoleBalancing_is_current_state_failed_state w \<longrightarrow>
        PoleBalancing_is_current_state_failed_state (PoleBalancing_run w actions))
   \<and> \<not> PoleBalancing_is_current_state_failed_state
          (snd (PoleBalancing_produce_initial_state w theta))"
proof (intro conjI impI)
  show "\<not> Gambler_is_current_state_failed_state (snd (Gambler_produce_initial_state self drawn))"
    by (simp add: Gambler_is_current_state_failed_state_def Gambler_produce_initial_state_failed)
  show "\<not> PoleBalancing_is_current_state_failed_state
          (snd (PoleBalancing_produce_initial_state w theta))"
    by (simp add: PoleBalancing_is_current_state_failed_state_def
        PoleBalancing_produce_initial_state_fields)
next
  assume "failed self"
  then show "failed (snd (Gambler_update self u a))" by (rule Gambler_update_failed)
next
  assume "Gambler_is_current_state_failed_state self"
  then show "Gambler_is_current_state_failed_state (Gambler_run self calls)"
    by (simp add: Gambler_is_current_state_failed_state_def Gambler_run_failed)
next
  assume "balancing_failed w"
  then show "balancing_failed (snd (PoleBalancing_update w action))"
    by (simp add: PoleBalancing_update_balancing_failed)
next
  assume "cart_exited w"
  then show "cart_exited (snd (PoleBalancing_update w action))"
    by (simp add: PoleBalancing_update_cart_exited)
next
  assume "balancing_failed w"
  then show "balancing_failed (PoleBalancing_run w actions)"
    by (simp add: PoleBalancing_run_balancing_failed)
next
  assume "cart_exited w"
  then show "cart_exited (PoleBalancing_run w actions)"
    by (simp add: PoleBalancing_run_cart_exited)
next
  assume "PoleBalancing_is_current_state_failed_state w"
  then show "PoleBalancing_is_current_state_failed_state (PoleBalancing_run w actions)"
    unfolding PoleBalancing_is_current_state_failed_state_def
    using PoleBalancing_run_balancing_failed[of w actions] PoleBalancing_run_cart_exited[of w actions]
    by blast
qed

theorem failed_state_monotone_witness:
  "failed broke_gambler
   \<and> failed (snd (Gambler_update broke_gambler (1 / 2) 1))
   \<and> Gambler_is_current_state_failed_state (Gambler_run broke_gambler [(0, 1), (0, 2)])
   \<and> balancing_failed (PoleBalancing_run edge_pole [False])
   \<and> \<bar>angle (PoleBalancing_run edge_pole [False, False])\<bar> < max_angle edge_pole
   \<and> balancing_failed (PoleBalancing_run edge_pole [False, False])
   \<and> PoleBalancing_is_current_state_failed_state (PoleBalancing_run edge_pole [False, False])"
proof -
  have f: "failed broke_gambler" by (simp add: broke_gambler_def gambler_eval)
  have ff: "Gambler_is_current_state_failed_state broke_gambler"
    using f by (simp add: Gambler_is_current_state_failed_state_def)
  have b: "balancing_failed (PoleBalancing_run edge_pole [False])"
    and inside: "\<bar>angle (PoleBalancing_run edge_pole [False, False])\<bar> < max_angle edge_pole"
    using edge_pole_reentry by simp_all
  have bb: "PoleBalancing_is_current_state_failed_state (PoleBalancing_run edge_pole [False])"
    using b by (simp add: PoleBalancing_is_current_state_failed_state_def)
  have r: "PoleBalancing_run (PoleBalancing_run edge_pole [False]) [False] =
      PoleBalancing_run edge_pole [False, False]"
    by simp
  note t = failed_state_monotone[of broke_gambler "1 / 2" 1 "[(0, 1), (0, 2)]" _
      "PoleBalancing_run edge_pole [False]" _ "[False]", unfolded r]
  from t f ff b bb inside show ?thesis by blast
qed

lemma see_saw_once:
  assumes "max_coins g = 100" "min_bet g = 1" "win_prob g = 4 / 10" "state g = 50"
    "\<not> failed g" "gambler.current_step g + 2 < max_steps g"
  shows "max_coins (Gambler_run g [(0, 1), (9 / 10, 1)]) = 100
       \<and> min_bet (Gambler_run g [(0, 1), (9 / 10, 1)]) = 1
       \<and> win_prob (Gambler_run g [(0, 1), (9 / 10, 1)]) = 4 / 10
       \<and> state (Gambler_run g [(0, 1), (9 / 10, 1)]) = 50
       \<and> \<not> failed (Gambler_run g [(0, 1), (9 / 10, 1)])
       \<and> max_steps (Gambler_run g [(0, 1), (9 / 10, 1)]) = max_steps g
       \<and> gambler.current_step (Gambler_run g [(0, 1), (9 / 10, 1)]) = gambler.current_step g + 2
       \<and> length (history (Gambler_run g [(0, 1), (9 / 10, 1)])) = length (history g) + 2"
  using assms by (simp add: gambler_eval)

lemma see_saw_many:
  assumes "max_coins g = 100" "min_bet g = 1" "win_prob g = 4 / 10" "state g = 50"
    "\<not> failed g" "gambler.current_step g + 2 * int n < max_steps g"
  shows "max_coins (Gambler_run g (see_saw n)) = 100
       \<and> min_bet (Gambler_run g (see_saw n)) = 1
       \<and> win_prob (Gambler_run g (see_saw n)) = 4 / 10
       \<and> state (Gambler_run g (see_saw n)) = 50
       \<and> \<not> failed (Gambler_run g (see_saw n))
       \<and> max_steps (Gambler_run g (see_saw n)) = max_steps g
       \<and> gambler.current_step (Gambler_run g (see_saw n)) = gambler.current_step g + 2 * int n
       \<and> length (history (Gambler_run g (see_saw n))) = length (history g) + 2 * n"
  using assms
proof (induction n arbitrary: g)
  case 0
  then show ?case by (simp add: see_saw_def)
next
  case (Suc n)
  let ?g = "Gambler_run g [(0, 1), (9 / 10, 1)]"
  have step: "gambler.current_step g + 2 < max_steps g" using Suc.prems(6) by simp
  note one = see_saw_once[OF Suc.prems(1-5) step]
  have run: "Gambler_run g (see_saw (Suc n)) = Gambler_run ?g (see_saw n)"
    by (simp add: see_saw_def)
  have "gambler.current_step ?g + 2 * int n < max_steps ?g"
    using one Suc.prems(6) by simp
  with one have "max_coins (Gambler_run ?g (see_saw n)) = 100
       \<and> min_bet (Gambler_run ?g (see_saw n)) = 1
       \<and> win_prob (Gambler_run ?g (see_saw n)) = 4 / 10
       \<and> state (Gambler_run ?g (see_saw n)) = 50
       \<and> \<not> failed (Gambler_run ?g (see_saw n))
       \<and> max_steps (Gambler_run ?g (see_saw n)) = max_steps ?g
       \<and> gambler.current_step (Gambler_run ?g (see_saw n)) = gambler.current_step ?g + 2 * int n
       \<and> length (history (Gambler_run ?g (see_saw n))) = length (history ?g) + 2 * n"
    by (intro Suc.IH) simp_all
  then show ?case unfolding run using one by simp
qed

lemma default_gambler_see_saw:
  "max_coins (Gambler_run default_gambler (see_saw 149)) = 100
   \<and> min_bet (Gambler_run default_gambler (see_saw 149)) = 1
   \<and> win_prob (Gambler_run default_gambler (see_saw 149)) = 4 / 10
   \<and> state (Gambler_run default_gambler (see_saw 149)) = 50
   \<and> \<not> failed (Gambler_run default_gambler (see_saw 149))
   \<and> max_steps (Gambler_run default_gambler (see_saw 149)) = 300
   \<and> gambler.current_step (Gambler_run default_gambler (see_saw 149)) = 298
   \<and> length (history (Gambler_run default_gambler (see_saw 149))) = 299"
proof -
  have "max_coins default_gambler = 100" "min_bet default_gambler = 1"
    "win_prob default_gambler = 4 / 10" "state default_gambler = 50"
    "\<not> failed default_gambler"
    "gambler.current_step default_gambler + 2 * int 149 < max_steps default_gambler"
    by (simp_all add: default_gambler_def gambler_eval)
  from see_saw_many[OF this] show ?thesis
    by (simp add: default_gambler_def gambler_eval)
qed

text \<open>
  The claim C5 as stated fails for the Gambler. With a step limit of 2 and 50 coins: a
  won wager of 1 and a lost wager of 1 reach the limit, which sets the failure flag, and a
  won wager of 50 then gives 100 coins, where \<open>is_current_state_final_state\<close> is true
  after the earlier failure; and a won wager of 1 followed by a won wager of 49 reaches
  100 coins on the very step that sets the failure flag. With the default step limit of
  300 the same happens after 149 rounds of a won and a lost wager of 1: every one of the
  calls is legal, since each adds its entry to the history.
\<close>

theorem Gambler_final_after_timeout:
  "history (Gambler_run hasty_gambler [(0, 1), (9 / 10, 1), (0, 50)]) = [50, 51, 50, 100]
   \<and> Gambler_is_current_state_failed_state (Gambler_run hasty_gambler [(0, 1), (9 / 10, 1)])
   \<and> Gambler_is_current_state_final_state (Gambler_run hasty_gambler [(0, 1), (9 / 10, 1), (0, 50)])
   \<and> history (Gambler_run hasty_gambler [(0, 1), (0, 49)]) = [50, 51, 100]
   \<and> Gambler_is_current_state_failed_state (Gambler_run hasty_gambler [(0, 1), (0, 49)])
   \<and> Gambler_is_current_state_final_state (Gambler_run hasty_gambler [(0, 1), (0, 49)])
   \<and> length (history (Gambler_run default_gambler (see_saw 149 @ [(0, 1), (0, 49)]))) = 301
   \<and> gambler.current_step (Gambler_run default_gambler (see_saw 149 @ [(0, 1), (0, 49)])) = 300
   \<and> Gambler_is_current_state_failed_state
        (Gambler_run default_gambler (see_saw 149 @ [(0, 1), (0, 49)]))
   \<and> Gambler_is_current_state_final_state
        (Gambler_run default_gambler (see_saw 149 @ [(0, 1), (0, 49)]))
   \<and> length (history (Gambler_run default_gambler (see_saw 149 @ [(0, 1), (9 / 10, 1), (0, 50)])))
        = 302
   \<and> Gambler_is_current_state_failed_state
        (Gambler_run default_gambler (see_saw 149 @ [(0, 1), (9 / 10, 1)]))
   \<and> Gambler_is_current_state_final_state
        (Gambler_run default_gambler (see_saw 149 @ [(0, 1), (9 / 10, 1), (0, 50)]))"
proof -
  have short:
    "history (Gambler_run hasty_gambler [(0, 1), (9 / 10, 1), (0, 50)]) = [50, 51, 50, 100]
     \<and> Gambler_is_current_state_failed_state (Gambler_run hasty_gambler [(0, 1), (9 / 10, 1)])
     \<and> Gambler_is_current_state_final_state
          (Gambler_run hasty_gambler [(0, 1), (9 / 10, 1), (0, 50)])
     \<and> history (Gambler_run hasty_gambler [(0, 1), (0, 49)]) = [50, 51, 100]
     \<and> Gambler_is_current_state_failed_state (Gambler_run hasty_gambler [(0, 1), (0, 49)])
     \<and> Gambler_is_current_state_final_state (Gambler_run hasty_gambler [(0, 1), (0, 49)])"
    by (simp add: hasty_gambler_def gambler_eval)
  have long:
    "length (history (Gambler_run default_gambler (see_saw 149 @ [(0, 1), (0, 49)]))) = 301
     \<and> gambler.current_step (Gambler_run default_gambler (see_saw 149 @ [(0, 1), (0, 49)])) = 300
     \<and> Gambler_is_current_state_failed_state
          (Gambler_run default_gambler (see_saw 149 @ [(0, 1), (0, 49)]))
     \<and> Gambler_is_current_state_final_state
          (Gambler_run default_gambler (see_saw 149 @ [(0, 1), (0, 49)]))
     \<and> length (history (Gambler_run default_gambler (see_saw 149 @ [(0, 1), (9 / 10, 1), (0, 50)])))
          = 302
     \<and> Gambler_is_current_state_failed_state
          (Gambler_run default_gambler (see_saw 149 @ [(0, 1), (9 / 10, 1)]))
     \<and> Gambler_is_current_state_final_state
          (Gambler_run default_gambler (see_saw 149 @ [(0, 1), (9 / 10, 1), (0, 50)]))"
    using default_gambler_see_saw
    by (simp add: Gambler_run_append Gambler_update_def Gambler_action_is_legal_def
        Gambler_get_child_state_def Gambler_is_current_state_final_state_def
        Gambler_is_current_state_failed_state_def Let_def)
  from short long show ?thesis by blast
qed

text \<open>
  Claim C5, amended. PoleBalancing: after any sequence of updates from the initial
  state, \<open>is_current_state_final_state\<close> is true exactly when the number of steps has
  reached \<open>steps\<close> and at no step of the episode the angle or the position was out of
  bounds. Gambler (\<open>max_coins = 100\<close>, \<open>min_bet = 1\<close>): it is true exactly when the
  coin count is 100, and it is false whenever the coin count was 0 at some point of the
  episode; a failure by time-out is not looked at.
\<close>

theorem final_state_characterisation:
  assumes "max_coins g = 100" "min_bet g = 1"
  shows
    "(Gambler_is_current_state_final_state (Gambler_run g calls) \<longleftrightarrow>
        state (Gambler_run g calls) = 100)
     \<and> ((\<exists>k\<in>{0..length calls}. state (Gambler_run g (take k calls)) = 0) \<longrightarrow>
          \<not> Gambler_is_current_state_final_state (Gambler_run g calls))
     \<and> (PoleBalancing_is_current_state_final_state
          (PoleBalancing_run (snd (PoleBalancing_produce_initial_state w theta)) actions) \<longleftrightarrow>
          steps w \<le> int (length actions) \<and>
          \<not> (\<exists>k\<in>{1..length actions}.
               \<bar>angle (PoleBalancing_run (snd (PoleBalancing_produce_initial_state w theta))
                   (take k actions))\<bar> \<ge> max_angle w
               \<or> \<bar>x_pos (PoleBalancing_run (snd (PoleBalancing_produce_initial_state w theta))
                   (take k actions))\<bar> \<ge> max_x_pos w))"
proof (intro conjI impI)
  show "Gambler_is_current_state_final_state (Gambler_run g calls) \<longleftrightarrow>
        state (Gambler_run g calls) = 100"
    using assms(1) by (simp add: Gambler_is_current_state_final_state_def Gambler_run_constants)
next
  assume "\<exists>k\<in>{0..length calls}. state (Gambler_run g (take k calls)) = 0"
  then obtain k where "k \<le> length calls" "state (Gambler_run g (take k calls)) = 0" by auto
  from Gambler_run_broke_prefix[OF assms(2) this]
  show "\<not> Gambler_is_current_state_final_state (Gambler_run g calls)"
    using assms(1) by (simp add: Gambler_is_current_state_final_state_def Gambler_run_constants)
next
  let ?w0 = "snd (PoleBalancing_produce_initial_state w theta)"
  show "PoleBalancing_is_current_state_final_state (PoleBalancing_run ?w0 actions) \<longleftrightarrow>
          steps w \<le> int (length actions) \<and>
          \<not> (\<exists>k\<in>{1..length actions}.
               \<bar>angle (PoleBalancing_run ?w0 (take k actions))\<bar> \<ge> max_angle w
               \<or> \<bar>x_pos (PoleBalancing_run ?w0 (take k actions))\<bar> \<ge> max_x_pos w)"
    unfolding PoleBalancing_is_current_state_final_state_def
      PoleBalancing_run_balancing_failed[of ?w0 actions]
      PoleBalancing_run_cart_exited[of ?w0 actions]
    by (simp add: PoleBalancing_run_step PoleBalancing_run_constants
        PoleBalancing_produce_initial_state_fields) blast
qed

theorem final_state_characterisation_witness:
  "max_coins broke_gambler = 100 \<and> min_bet broke_gambler = 1
   \<and> state (Gambler_run broke_gambler (take 0 [(0, 1)])) = 0
   \<and> \<not> Gambler_is_current_state_final_state (Gambler_run broke_gambler [(0, 1)])
   \<and> \<not> PoleBalancing_is_current_state_final_state
        (PoleBalancing_run (snd (PoleBalancing_produce_initial_state edge_pole (- 21 / 100))) [True])"
proof -
  have c: "max_coins broke_gambler = 100" "min_bet broke_gambler = 1"
    by (simp_all add: broke_gambler_def gambler_eval)
  have z: "state (Gambler_run broke_gambler (take 0 [(0, 1)])) = 0"
    by (simp add: broke_gambler_def gambler_eval)
  then have ex: "\<exists>k\<in>{0..length [(0::real, 1::int)]}. state (Gambler_run broke_gambler (take k [(0, 1)])) = 0"
    by (intro bexI[of _ 0]) simp_all
  note t = final_state_characterisation[OF c, of "[(0, 1)]" edge_pole "- 21 / 100" "[True]"]
  have g: "\<not> Gambler_is_current_state_final_state (Gambler_run broke_gambler [(0, 1)])"
    using t ex by blast
  have "steps edge_pole = 300" by (simp add: edge_pole_def PoleBalancing_init_def
      PoleBalancing_produce_initial_state_def Let_def)
  then have p: "\<not> PoleBalancing_is_current_state_final_state
        (PoleBalancing_run (snd (PoleBalancing_produce_initial_state edge_pole (- 21 / 100))) [True])"
    using t by simp
  from c z g p show ?thesis by simp
qed

end
